theory Spec2Isabelle
  imports Main "HOL-Library.AList"
begin

section \<open>JavaScript string primitives used by the import scripts\<close>

text \<open>
  Strings are lists of characters. Each primitive below follows the ECMAScript
  operation of the same name on the arguments the scripts pass to it.
\<close>

definition endsWith :: "string \<Rightarrow> string \<Rightarrow> bool" where
  "endsWith s t = (length t \<le> length s \<and> drop (length s - length t) s = t)"

definition startsWith :: "string \<Rightarrow> string \<Rightarrow> bool" where
  "startsWith s t = (take (length t) s = t)"

section \<open>Partial dates: \<open>isNewDateMoreSpecific\<close>\<close>

text \<open>
  \<^verbatim>\<open>
  function isNewDateMoreSpecific(currentDate, newDate) {
    if (!currentDate.endsWith("u")) return false;
    if (newDate == "9999" || newDate == "uuuu") return false;
    if (currentDate == "9999" || currentDate == "uuuu") return true;
    if (currentDate.endsWith("uuu")) return true;
    if (currentDate.endsWith("uu")) return !newDate.endsWith("uuu");
    if (currentDate.endsWith("u")) return !newDate.endsWith("uu");
    return false;
  }
  \<close>
\<close>

definition isNewDateMoreSpecific :: "string \<Rightarrow> string \<Rightarrow> bool" where
  "isNewDateMoreSpecific currentDate newDate =
     (if \<not> endsWith currentDate ''u'' then False
      else if newDate = ''9999'' \<or> newDate = ''uuuu'' then False
      else if currentDate = ''9999'' \<or> currentDate = ''uuuu'' then True
      else if endsWith currentDate ''uuu'' then True
      else if endsWith currentDate ''uu'' then \<not> endsWith newDate ''uuu''
      else if endsWith currentDate ''u'' then \<not> endsWith newDate ''uu''
      else False)"

text \<open>
  The decision table of the specification, written from its wording: the number of
  unknown markers a token ends in, and six rules tried in order.
\<close>

definition trailingUnknown :: "string \<Rightarrow> nat" where
  "trailingUnknown s = length (takeWhile (\<lambda>c. c = CHR ''u'') (rev s))"

datatype verdict = Decided bool | NextRule

definition dateRules :: "(string \<Rightarrow> string \<Rightarrow> verdict) list" where
  "dateRules =
    [\<lambda>cur cand. if trailingUnknown cur = 0 then Decided False else NextRule,
     \<lambda>cur cand. if cand = ''uuuu'' \<or> cand = ''9999'' then Decided False else NextRule,
     \<lambda>cur cand. if cur = ''uuuu'' \<or> cur = ''9999'' then Decided True else NextRule,
     \<lambda>cur cand. if 3 \<le> trailingUnknown cur then Decided True else NextRule,
     \<lambda>cur cand. if trailingUnknown cur = 2 then Decided (trailingUnknown cand < 3) else NextRule,
     \<lambda>cur cand. if trailingUnknown cur = 1 then Decided (trailingUnknown cand < 2) else NextRule]"

fun firstMatch :: "(string \<Rightarrow> string \<Rightarrow> verdict) list \<Rightarrow> string \<Rightarrow> string \<Rightarrow> bool" where
  "firstMatch [] cur cand = False"
| "firstMatch (r # rs) cur cand =
     (case r cur cand of Decided b \<Rightarrow> b | NextRule \<Rightarrow> firstMatch rs cur cand)"

definition isMoreSpecific :: "string \<Rightarrow> string \<Rightarrow> bool" where
  "isMoreSpecific cur cand = firstMatch dateRules cur cand"

section \<open>The tab-separated import: \<open>updateNewspaperRecord\<close>\<close>

text \<open>
  Lower-casing covers the ASCII letters, which is what the column names of the registry
  export are written in; every other character is left as it is.
\<close>

definition toLowerChar :: "char \<Rightarrow> char" where
  "toLowerChar c =
     (case map_of (zip ''ABCDEFGHIJKLMNOPQRSTUVWXYZ'' ''abcdefghijklmnopqrstuvwxyz'') c of
        Some d \<Rightarrow> d
      | None \<Rightarrow> c)"

definition toLowerCase :: "string \<Rightarrow> string" where
  "toLowerCase s = map toLowerChar s"

definition replaceAllSpaces :: "string \<Rightarrow> string" where
  "replaceAllSpaces s = map (\<lambda>c. if c = CHR '' '' then CHR ''-'' else c) s"

text \<open>
  The values of a newspaper's JSON file. A number is an integer that a double holds
  exactly (the only numbers these scripts write are revisions), and an object keeps its
  properties in insertion order.
\<close>

datatype json = JNull | JBool bool | JNum int | JStr string | JObj "(string \<times> json) list"

type_synonym props = "(string \<times> json) list"

text \<open>JavaScript's truthiness, as \<open>if (newspaper.revision)\<close> tests it.\<close>

fun truthy :: "json \<Rightarrow> bool" where
  "truthy JNull = False"
| "truthy (JBool b) = b"
| "truthy (JNum n) = (n \<noteq> 0)"
| "truthy (JStr s) = (s \<noteq> [])"
| "truthy (JObj ps) = True"

text \<open>
  \<open>n + 1\<close> on doubles. From \<open>-2^53\<close> up to \<open>2^53 - 1\<close> the sum is exact. Beyond,
  the doubles of magnitude below \<open>2^54\<close> are the even integers, \<open>n + 1\<close> lies halfway
  between \<open>n\<close> and \<open>n + 2\<close>, and the sum is rounded to the one of the two whose
  significand \<open>n / 2\<close> is even; from magnitude \<open>2^54\<close> on the doubles are at least four
  apart and the sum is rounded back to \<open>n\<close>.
\<close>

definition doubleAddOne :: "int \<Rightarrow> int" where
  "doubleAddOne n =
     (if - (2 ^ 53) \<le> n \<and> n < 2 ^ 53 then n + 1
      else if \<bar>n\<bar> < 2 ^ 54 then (if even (n div 2) then n else n + 2)
      else n)"

text \<open>
  \<open>v += 1\<close>: numeric addition on numbers, booleans and null, string concatenation on
  strings and on objects (which convert to \<open>[object Object]\<close>).
\<close>

fun plusOne :: "json \<Rightarrow> json" where
  "plusOne (JNum n) = JNum (doubleAddOne n)"
| "plusOne (JBool b) = JNum ((if b then 1 else 0) + 1)"
| "plusOne JNull = JNum 1"
| "plusOne (JStr s) = JStr (s @ ''1'')"
| "plusOne (JObj ps) = JStr ''[object Object]1''"

text \<open>
  What the script finds under \<open>jsonDirectory/<id>.json\<close>: no file, a file that
  \<open>JSON.parse\<close> rejects (the script logs and exits with code 1), or an object.
\<close>

datatype stored = NoFile | BadJson | Json props

datatype import_error = Exit1

definition readExisting :: "stored \<Rightarrow> import_error + props" where
  "readExisting f = (case f of NoFile \<Rightarrow> Inr [] | BadJson \<Rightarrow> Inl Exit1 | Json ps \<Rightarrow> Inr ps)"

text \<open>
  One iteration of \<open>for (var key in record)\<close>; \<open>recId\<close> is \<open>record.Id\<close>, read before
  the loop.
  \<^verbatim>\<open>
    if (key == "Id") { newspaper.id = id; }
    else if (key == "Current?") { newspaper["is-current"] = record[key]; }
    else if (key == "Placecode") { newspaper["nzn-placecode"] = record[key]; }
    else if (key == "Modified At" || key == "Modified By") { }
    else { if (record[key] != "") {
             newKey = key.toLowerCase().replaceAll(" ", "-");
             newspaper[newKey] = record[key]; } }
  \<close>
\<close>

definition mergeColumn :: "string option \<Rightarrow> props \<Rightarrow> string \<times> string \<Rightarrow> props" where
  "mergeColumn recId newspaper kv =
     (let key = fst kv; cell = snd kv in
      if key = ''Id'' then
        (case recId of Some i \<Rightarrow> AList.update ''id'' (JStr i) newspaper | None \<Rightarrow> newspaper)
      else if key = ''Current?'' then AList.update ''is-current'' (JStr cell) newspaper
      else if key = ''Placecode'' then AList.update ''nzn-placecode'' (JStr cell) newspaper
      else if key = ''Modified At'' \<or> key = ''Modified By'' then newspaper
      else if cell \<noteq> [] then
        AList.update (replaceAllSpaces (toLowerCase key)) (JStr cell) newspaper
      else newspaper)"

definition mergeRow :: "props \<Rightarrow> (string \<times> string) list \<Rightarrow> props" where
  "mergeRow newspaper record = foldl (mergeColumn (map_of record ''Id'')) newspaper record"

text \<open>
  \<^verbatim>\<open>
    if (newspaper.revision) { newspaper.revision += 1; } else { newspaper.revision = 1; }
  \<close>
\<close>

definition bumpRevision :: "props \<Rightarrow> props" where
  "bumpRevision newspaper =
     (case map_of newspaper ''revision'' of
        Some r \<Rightarrow>
          if truthy r then AList.update ''revision'' (plusOne r) newspaper
          else AList.update ''revision'' (JNum 1) newspaper
      | None \<Rightarrow> AList.update ''revision'' (JNum 1) newspaper)"

text \<open>
  The whole function: the object it hands to \<open>fs.writeFile\<close> for the row's id, or the
  exit when the existing file cannot be parsed. The row is the list of the record's
  columns in iteration order, a column name occurring once.
\<close>

definition updateNewspaperRecord :: "stored \<Rightarrow> (string \<times> string) list \<Rightarrow> import_error + props" where
  "updateNewspaperRecord file record =
     (case readExisting file of
        Inl e \<Rightarrow> Inl e
      | Inr newspaper \<Rightarrow> Inr (bumpRevision (mergeRow newspaper record)))"

text \<open>
  The stored field a column is written to, if any: the renaming table of the loop, used to
  state which fields a row names.
\<close>

definition isGenericColumn :: "string \<Rightarrow> bool" where
  "isGenericColumn key =
     (key \<noteq> ''Id'' \<and> key \<noteq> ''Current?'' \<and> key \<noteq> ''Placecode''
      \<and> key \<noteq> ''Modified At'' \<and> key \<noteq> ''Modified By'')"

definition fieldOfColumn :: "string \<Rightarrow> string option" where
  "fieldOfColumn key =
     (if key = ''Id'' then Some ''id''
      else if key = ''Current?'' then Some ''is-current''
      else if key = ''Placecode'' then Some ''nzn-placecode''
      else if key = ''Modified At'' \<or> key = ''Modified By'' then None
      else Some (replaceAllSpaces (toLowerCase key)))"

section \<open>The reconciliation tool: mode of operation\<close>

text \<open>
  \<^verbatim>\<open>
  const commandArgs = process.argv.slice(2);
  let mode = "report";
  switch (commandArgs[0].toLowerCase()) {
    case "report": mode = "report"; break;
    case "add-new-records": mode = "add-new-records"; break;
    case "update-existing-records": mode = "update-existing-records"; break;
    case "update-marc-files": mode = "update-marc-files"; break;
    default: mode = "report";
  }
  \<close>
  With no argument \<open>commandArgs[0]\<close> is \<open>undefined\<close>, and calling \<open>toLowerCase\<close> on it
  throws a TypeError that nothing catches.
\<close>

datatype js_error = TypeError | Thrown string | ExitCode nat

definition selectMode :: "string list \<Rightarrow> js_error + string" where
  "selectMode argv =
     (case drop 2 argv of
        [] \<Rightarrow> Inl TypeError
      | arg # rest \<Rightarrow>
          (let a = toLowerCase arg in
           if a = ''report'' then Inr ''report''
           else if a = ''add-new-records'' then Inr ''add-new-records''
           else if a = ''update-existing-records'' then Inr ''update-existing-records''
           else if a = ''update-marc-files'' then Inr ''update-marc-files''
           else Inr ''report''))"

section \<open>More string primitives\<close>

text \<open>\<open>s.includes(t)\<close>.\<close>

fun includesStr :: "string \<Rightarrow> string \<Rightarrow> bool" where
  "includesStr [] t = (t = [])"
| "includesStr (c # cs) t = (startsWith (c # cs) t \<or> includesStr cs t)"

text \<open>\<open>s.indexOf(c)\<close> for a one-character string \<open>c\<close>: the first position, or \<open>-1\<close>.\<close>

fun indexOf :: "string \<Rightarrow> char \<Rightarrow> int" where
  "indexOf [] c = - 1"
| "indexOf (x # xs) c =
     (if x = c then 0 else (let i = indexOf xs c in if i = - 1 then - 1 else i + 1))"

text \<open>
  \<open>name.search("N.Z")\<close>: the string is compiled to the regular expression \<open>N.Z\<close>,
  whose dot matches any character but a line terminator. The result is the position of
  the first match, or \<open>-1\<close>.
\<close>

definition isLineTerminator :: "char \<Rightarrow> bool" where
  "isLineTerminator c = (c = CHR 0x0A \<or> c = CHR 0x0D)"

fun searchNZ :: "string \<Rightarrow> int" where
  "searchNZ (a # b # c # rest) =
     (if a = CHR ''N'' \<and> \<not> isLineTerminator b \<and> c = CHR ''Z'' then 0
      else (let i = searchNZ (b # c # rest) in if i = - 1 then - 1 else i + 1))"
| "searchNZ s = - 1"

text \<open>\<open>s.charAt(i)\<close> and \<open>s.substring(a, b)\<close> for \<open>a \<le> b\<close>; both clamp at the end.\<close>

definition charAt :: "string \<Rightarrow> nat \<Rightarrow> string" where
  "charAt s i = take 1 (drop i s)"

definition substring :: "string \<Rightarrow> nat \<Rightarrow> nat \<Rightarrow> string" where
  "substring s a b = take (b - a) (drop a s)"

text \<open>\<open>s.trim()\<close>: white space and line terminators among the characters below 256.\<close>

definition isWhiteSpace :: "char \<Rightarrow> bool" where
  "isWhiteSpace c =
     (c \<in> set [CHR 0x09, CHR 0x0A, CHR 0x0B, CHR 0x0C, CHR 0x0D, CHR 0x20, CHR 0xA0])"

definition trim :: "string \<Rightarrow> string" where
  "trim s = rev (dropWhile isWhiteSpace (rev (dropWhile isWhiteSpace s)))"

text \<open>\<open>s.replace(/[\.\,\?]+$/, "")\<close>: the run of dots, commas and question marks at the end.\<close>

definition stripTrailingPunctuation :: "string \<Rightarrow> string" where
  "stripTrailingPunctuation s = rev (dropWhile (\<lambda>c. c \<in> set ''.,?'') (rev s))"

text \<open>
  \<open>s.replace(/\?/, "")\<close>: the pattern has no \<open>g\<close> flag and no anchor, so the first
  question mark of the string is deleted and nothing else.
\<close>

fun replaceFirstQuestionMark :: "string \<Rightarrow> string" where
  "replaceFirstQuestionMark [] = []"
| "replaceFirstQuestionMark (c # cs) =
     (if c = CHR ''?'' then cs else c # replaceFirstQuestionMark cs)"

text \<open>Comparison of strings by code units, as \<open>dateOnFile > "130402"\<close> does it.\<close>

fun stringLess :: "string \<Rightarrow> string \<Rightarrow> bool" where
  "stringLess [] [] = False"
| "stringLess [] (y # ys) = True"
| "stringLess (x # xs) [] = False"
| "stringLess (x # xs) (y # ys) =
     ((of_char x :: nat) < of_char y \<or> (x = y \<and> stringLess xs ys))"

section \<open>Place names: \<open>placeCleanUp\<close>\<close>

text \<open>
  \<^verbatim>\<open>
  function placeCleanUp(rawName) {
    if (!rawName) return null;
    let name = rawName;
    if (name.includes("Apia") || name.includes("Egypt") ||
        name.includes("London") || name.includes("Sydney")) return null;
    if (name.charAt(0) == "[") name = name.substring(1);
    if (name.search("N.Z") != -1) {
      const comma = name.indexOf(",");
      if (comma > 1) name = name.substring(0, comma);
      const nz = name.search("N.Z");
      if (nz > 1) name = name.substring(0, nz);
      const sqb = name.indexOf("[");
      if (sqb > 1) name = name.substring(0, sqb);
    }
    name = name.replace(/\?/, "");
    name = nznShared.titleCleanup(name);
    return name;
  }
  \<close>
  \<open>excludedPlace\<close> is the rejection test, \<open>truncatePlace\<close> the name after the bracket
  and the \<open>N.Z\<close> truncations, \<open>placeBeforeCleanup\<close> the name handed to
  \<open>titleCleanup\<close>. The module \<open>nzn-shared\<close> is not part of the sources, so
  \<open>titleCleanup\<close> is a parameter: any function from a value (null or a string) to a value.
\<close>

definition excludedPlace :: "string \<Rightarrow> bool" where
  "excludedPlace rawName =
     (rawName = [] \<or> includesStr rawName ''Apia'' \<or> includesStr rawName ''Egypt''
      \<or> includesStr rawName ''London'' \<or> includesStr rawName ''Sydney'')"

definition truncatePlace :: "string \<Rightarrow> string" where
  "truncatePlace rawName =
     (let name = (if charAt rawName 0 = ''['' then drop 1 rawName else rawName) in
      if searchNZ name \<noteq> - 1 then
        (let comma = indexOf name CHR '','';
             name = (if comma > 1 then take (nat comma) name else name);
             nz = searchNZ name;
             name = (if nz > 1 then take (nat nz) name else name);
             sqb = indexOf name CHR ''['';
             name = (if sqb > 1 then take (nat sqb) name else name)
         in name)
      else name)"

definition placeBeforeCleanup :: "string \<Rightarrow> string option" where
  "placeBeforeCleanup rawName =
     (if excludedPlace rawName then None
      else Some (replaceFirstQuestionMark (truncatePlace rawName)))"

definition placeCleanUp :: "(string option \<Rightarrow> string option) \<Rightarrow> string \<Rightarrow> string option" where
  "placeCleanUp titleCleanup rawName =
     (case placeBeforeCleanup rawName of
        None \<Rightarrow> None
      | Some name \<Rightarrow> titleCleanup (Some name))"

section \<open>The reconciliation tool: data\<close>

text \<open>
  A newspaper record of the store, with the fields the tool reads and writes. A field of
  the JSON object that is absent reads as \<open>undefined\<close>, here \<open>None\<close>.
\<close>

record newspaper =
  ident :: "string option"
  title :: "string option"
  genre :: "string option"
  idMarcControlNumber :: "string option"
  isCurrent :: "bool option"
  firstYear :: "string option"
  finalYear :: "string option"
  frequency :: "string option"
  placename :: "string option"
  placecode :: "string option"
  district :: "string option"
  region :: "string option"

text \<open>An entry of \<open>placeData\<close>: placecode, district and region.\<close>

type_synonym place = "string option \<times> string option \<times> string option"

text \<open>
  A MARC record as \<open>marcjs\<close> presents it: the leader, the control fields (tag and
  value) and the data fields (tag and subfields, each a pair of code and value), in the
  order of the record. Tags have three characters, so a tag matches \<open>/035/\<close> exactly
  when it is \<open>035\<close>.
\<close>

record marc_record =
  leader :: string
  controlFields :: "(string \<times> string) list"
  dataFields :: "(string \<times> (string \<times> string) list) list"

text \<open>
  \<open>record.get(/tag/).forEach(field => field["subf"].forEach(pair => ...))\<close> visits the
  subfields of all fields with the tag, in order.
\<close>

definition subfields :: "marc_record \<Rightarrow> string \<Rightarrow> (string \<times> string) list" where
  "subfields r tag = concat (map snd (filter (\<lambda>f. fst f = tag) (dataFields r)))"

text \<open>A value is falsy when it is \<open>undefined\<close>, \<open>null\<close> or the empty string.\<close>

definition falsy :: "string option \<Rightarrow> bool" where
  "falsy v = (v = None \<or> v = Some [])"

text \<open>An absent value in a string concatenation or as a property key.\<close>

definition jsString :: "string option \<Rightarrow> string" where
  "jsString v = (case v of None \<Rightarrow> ''undefined'' | Some s \<Rightarrow> s)"

text \<open>An error-propagating loop over a list: the first exception ends it.\<close>

fun foldE :: "('s \<Rightarrow> 'a \<Rightarrow> 'e + 's) \<Rightarrow> 's \<Rightarrow> 'a list \<Rightarrow> 'e + 's" where
  "foldE f s [] = Inr s"
| "foldE f s (x # xs) = (case f s x of Inl e \<Rightarrow> Inl e | Inr s' \<Rightarrow> foldE f s' xs)"

section \<open>The reconciliation tool: scanning the existing records\<close>

text \<open>
  \<^verbatim>\<open>
  for (const [id, newspaper] of Object.entries(newspaperRecords)) {
    marcNumber = newspaper.idMarcControlNumber;
    if (!marcNumber) {
    } else if (!marcNumberToNewspaperId[marcNumber]) {
      marcNumberToNewspaperId[marcNumber] = id;
    } else {
      let message = "Error: Duplicate MARC number '" + marcNumber + "': " + id +
        " (" + newspaper.title + " / " + newspaper.genre + ")" + " matches " +
        marcNumberToNewspaperId[marcNumber] +
        " (" + newspaperRecords[marcNumberToNewspaperId[marcNumber]].title + ")";
      console.log(message);
      throw message;
    }
    var pname = newspaper.placename;
    if (!placeData[pname]) {
      placeData[pname] = {};
      placeData[pname]["placecode"] = newspaper.placecode;
      placeData[pname]["district"] = newspaper.district;
      placeData[pname]["region"] = newspaper.region;
    }
  }
  \<close>
  \<open>newspaperRecords\<close> is the list of the store's entries in the order
  \<open>Object.entries\<close> yields them. Keys of the two tables are control numbers and place
  names; none of them is the name of a member of \<open>Object.prototype\<close>.
\<close>

definition duplicateMessage ::
  "string \<Rightarrow> string \<Rightarrow> newspaper \<Rightarrow> string \<Rightarrow> newspaper \<Rightarrow> string" where
  "duplicateMessage marcNumber nid newspaper firstId firstNewspaper =
     ''Error: Duplicate MARC number '' @ [CHR 0x27] @ marcNumber @ [CHR 0x27] @ '': '' @ nid
     @ '' ('' @ jsString (title newspaper) @ '' / '' @ jsString (genre newspaper) @ '')''
     @ '' matches '' @ firstId @ '' ('' @ jsString (title firstNewspaper) @ '')''"

definition scanRecord ::
  "(string \<times> newspaper) list \<Rightarrow> (string \<rightharpoonup> string) \<times> (string \<rightharpoonup> place) \<Rightarrow>
   string \<times> newspaper \<Rightarrow> js_error + (string \<rightharpoonup> string) \<times> (string \<rightharpoonup> place)" where
  "scanRecord newspaperRecords tables entry =
     (let marcNumberToNewspaperId = fst tables; placeData = snd tables;
          nid = fst entry; newspaper = snd entry;
          pname = jsString (placename newspaper);
          placeData' =
            (if placeData pname = None
             then placeData(pname \<mapsto> (placecode newspaper, district newspaper, region newspaper))
             else placeData)
      in case idMarcControlNumber newspaper of
           None \<Rightarrow> Inr (marcNumberToNewspaperId, placeData')
         | Some marcNumber \<Rightarrow>
             if marcNumber = [] then Inr (marcNumberToNewspaperId, placeData')
             else if falsy (marcNumberToNewspaperId marcNumber)
             then Inr (marcNumberToNewspaperId(marcNumber \<mapsto> nid), placeData')
             else
               (let firstId = jsString (marcNumberToNewspaperId marcNumber) in
                case map_of newspaperRecords firstId of
                  None \<Rightarrow> Inl TypeError
                | Some firstNewspaper \<Rightarrow>
                    Inl (Thrown (duplicateMessage marcNumber nid newspaper firstId firstNewspaper))))"

definition scanRecords ::
  "(string \<times> newspaper) list \<Rightarrow> js_error + (string \<rightharpoonup> string) \<times> (string \<rightharpoonup> place)" where
  "scanRecords newspaperRecords =
     foldE (scanRecord newspaperRecords) (Map.empty, Map.empty) newspaperRecords"

section \<open>The reconciliation tool: reading one MARC record\<close>

text \<open>
  Field 008, read by \<open>record.match(/008/, ...)\<close>; a later 008 field overwrites an earlier.
  \<^verbatim>\<open>
    dateOnFile = field.value.substring(0, 6);
    typeOfDate = field.value.charAt(6);
    date1 = field.value.substring(7, 11);
    date2 = field.value.substring(11, 15);
    continuingResourceType = field.value.charAt(21);
  \<close>
\<close>

record general_info =
  dateOnFile :: string
  typeOfDate :: string
  date1 :: string
  date2 :: string
  continuingResourceType :: string

definition readGeneralInfo :: "string \<Rightarrow> general_info" where
  "readGeneralInfo v =
     \<lparr>dateOnFile = substring v 0 6, typeOfDate = charAt v 6, date1 = substring v 7 11,
      date2 = substring v 11 15, continuingResourceType = charAt v 21\<rparr>"

definition generalInfo :: "marc_record \<Rightarrow> general_info option" where
  "generalInfo r =
     foldl (\<lambda>info f. if fst f = ''008'' then Some (readGeneralInfo (snd f)) else info)
       None (controlFields r)"

text \<open>
  Field 035: the control numbers.
  \<^verbatim>\<open>
    if (pair[0] == "a" && pair[1].startsWith("(Nz)")) {
      marcControlNumber = pair[1].substring(4);
      marcControlNumberList.push(marcControlNumber);
      if (marcNumberToNewspaperId[marcControlNumber]) {
        newspaperId = marcNumberToNewspaperId[marcControlNumber];
      }
    }
  \<close>
  The state of the loop is \<open>(marcControlNumber, marcControlNumberList, newspaperId)\<close>.
\<close>

definition controlNumberStep ::
  "(string \<rightharpoonup> string) \<Rightarrow> string option \<times> string list \<times> string option \<Rightarrow> string \<times> string \<Rightarrow>
   string option \<times> string list \<times> string option" where
  "controlNumberStep marcNumberToNewspaperId acc pair =
     (let marcControlNumberList = fst (snd acc); newspaperId = snd (snd acc) in
      if fst pair = ''a'' \<and> startsWith (snd pair) ''(Nz)'' then
        (let marcControlNumber = drop 4 (snd pair) in
         (Some marcControlNumber, marcControlNumberList @ [marcControlNumber],
          if \<not> falsy (marcNumberToNewspaperId marcControlNumber)
          then marcNumberToNewspaperId marcControlNumber else newspaperId))
      else acc)"

definition controlNumbers ::
  "(string \<rightharpoonup> string) \<Rightarrow> marc_record \<Rightarrow> string option \<times> string list \<times> string option" where
  "controlNumbers marcNumberToNewspaperId r =
     foldl (controlNumberStep marcNumberToNewspaperId) (None, [], None) (subfields r ''035'')"

text \<open>
  Fields 245 and 300: the title and the two format flags
  \<open>(isElectronicResource, isMicroformResource)\<close>.
  \<^verbatim>\<open>
    if (pair[0] == "a") { title = pair[1]; }
    else if (pair[0] == "h") {
      medium = pair[1];
      if (medium.startsWith("[electronic resource]")) isElectronicResource = true;
      else if (medium.startsWith("[microform]")) isMicroformResource = true;
    }
    ...
    if (pair[0] == "a") {
      physicalExtent = pair[1];
      if (physicalExtent.includes("microf")) isMicroformResource = true;
      else if (physicalExtent.includes("online resource")) isElectronicResource = true;
      else if (physicalExtent.includes("electronic documents")) isElectronicResource = true;
    }
  \<close>
\<close>

definition titleOf :: "marc_record \<Rightarrow> string option" where
  "titleOf r =
     foldl (\<lambda>t pair. if fst pair = ''a'' then Some (snd pair) else t) None (subfields r ''245'')"

definition mediumStep :: "bool \<times> bool \<Rightarrow> string \<times> string \<Rightarrow> bool \<times> bool" where
  "mediumStep flags pair =
     (if fst pair = ''a'' then flags
      else if fst pair = ''h'' then
        (if startsWith (snd pair) ''[electronic resource]'' then (True, snd flags)
         else if startsWith (snd pair) ''[microform]'' then (fst flags, True)
         else flags)
      else flags)"

definition extentStep :: "bool \<times> bool \<Rightarrow> string \<times> string \<Rightarrow> bool \<times> bool" where
  "extentStep flags pair =
     (if fst pair = ''a'' then
        (if includesStr (snd pair) ''microf'' then (fst flags, True)
         else if includesStr (snd pair) ''online resource'' then (True, snd flags)
         else if includesStr (snd pair) ''electronic documents'' then (True, snd flags)
         else flags)
      else flags)"

definition formatFlags :: "marc_record \<Rightarrow> bool \<times> bool" where
  "formatFlags r =
     foldl extentStep (foldl mediumStep (False, False) (subfields r ''245'')) (subfields r ''300'')"

text \<open>
  Field 310: the frequency and whether it is too infrequent,
  \<open>(infrequent, frequency)\<close>.
  \<^verbatim>\<open>
    if (pair[0] == "a") {
      frequency = pair[1];
      frequency = frequency.trim().replace(/[\.\,\?]+$/, "");
      infrequent = ["Annual", "Semiannual", "Quarterly", "Monthly"].includes(frequency);
    }
  \<close>
\<close>

definition frequencyStep :: "bool \<times> string option \<Rightarrow> string \<times> string \<Rightarrow> bool \<times> string option" where
  "frequencyStep acc pair =
     (if fst pair = ''a'' then
        (let frequency = stripTrailingPunctuation (trim (snd pair)) in
         (frequency \<in> set [''Annual'', ''Semiannual'', ''Quarterly'', ''Monthly''], Some frequency))
      else acc)"

definition frequencyOf :: "marc_record \<Rightarrow> bool \<times> string option" where
  "frequencyOf r = foldl frequencyStep (False, None) (subfields r ''310'')"

text \<open>
  Field 260: the place name, cleaned.
  \<^verbatim>\<open>
    if (pair[0] == "a") { placename = placeCleanUp(pair[1]); }
  \<close>
\<close>

definition placenameOf :: "(string option \<Rightarrow> string option) \<Rightarrow> marc_record \<Rightarrow> string option" where
  "placenameOf titleCleanup r =
     foldl (\<lambda>p pair. if fst pair = ''a'' then placeCleanUp titleCleanup (snd pair) else p)
       None (subfields r ''260'')"

section \<open>The reconciliation tool: classifying one newspaper record\<close>

text \<open>
  The values the handler has extracted from a MARC record when it reaches the
  classification; each field is the source variable of the same name
  (\<open>bibTitle\<close> is \<open>title\<close>, \<open>bibFrequency\<close> is \<open>frequency\<close>, \<open>bibPlacename\<close> is
  \<open>placename\<close>, \<open>bibInfo\<close> holds the variables read from field 008).
\<close>

record parsed =
  marcControlNumber :: "string option"
  newspaperId :: "string option"
  isElectronicResource :: bool
  isMicroformResource :: bool
  infrequent :: bool
  bibTitle :: "string option"
  bibFrequency :: "string option"
  bibPlacename :: "string option"
  bibInfo :: general_info

definition parseNewspaper ::
  "(string option \<Rightarrow> string option) \<Rightarrow> (string \<rightharpoonup> string) \<Rightarrow> marc_record \<Rightarrow> general_info \<Rightarrow> parsed" where
  "parseNewspaper titleCleanup marcNumberToNewspaperId r info =
     \<lparr>marcControlNumber = fst (controlNumbers marcNumberToNewspaperId r),
      newspaperId = snd (snd (controlNumbers marcNumberToNewspaperId r)),
      isElectronicResource = fst (formatFlags r),
      isMicroformResource = snd (formatFlags r),
      infrequent = fst (frequencyOf r),
      bibTitle = titleOf r,
      bibFrequency = snd (frequencyOf r),
      bibPlacename = placenameOf titleCleanup r,
      bibInfo = info\<rparr>"

text \<open>
  The state of a run: the statistics and the three counters of the script, and what the
  run has done to the outside: the newspaper records of the store, the calls of
  \<open>writeNewspaper\<close> (id, record and source note) and the ids whose MARC text file was
  written, both in order.
\<close>

record run_state =
  stats :: "string \<rightharpoonup> nat"
  recordCounter :: nat
  serialCounter :: nat
  newspaperCounter :: nat
  papers :: "(string \<times> newspaper) list"
  writes :: "(string \<times> newspaper \<times> string) list"
  marcFiles :: "string list"

text \<open>
  \<^verbatim>\<open>
  function addStats(label) {
    if (stats[label]) { stats[label] += 1; } else { stats[label] = 1; }
  }
  \<close>
\<close>

definition addStats :: "string \<Rightarrow> run_state \<Rightarrow> run_state" where
  "addStats label st =
     st\<lparr>stats := (stats st)(label \<mapsto>
          (case stats st label of
             Some n \<Rightarrow> if n \<noteq> 0 then n + 1 else 1
           | None \<Rightarrow> 1))\<rparr>"

text \<open>
  Modelled from the spec: the persistence calls of the module \<open>nzn-shared\<close>, which is
  not part of the sources. The specification describes them as plain input and output
  with no decision logic: \<open>readNewspaper\<close> returns the record stored under an id (a
  record that cannot be read is fatal, exit code 1), and \<open>writeNewspaper\<close> stores the
  record under the id, the source note passed alongside. \<open>getNextNewspaperId\<close> and
  \<open>titleCleanup\<close> are parameters of the model.
\<close>

definition readNewspaper :: "run_state \<Rightarrow> string \<Rightarrow> js_error + newspaper" where
  "readNewspaper st nid =
     (case map_of (papers st) nid of None \<Rightarrow> Inl (ExitCode 1) | Some newspaper \<Rightarrow> Inr newspaper)"

definition writeNewspaper :: "string \<Rightarrow> newspaper \<Rightarrow> string \<Rightarrow> run_state \<Rightarrow> run_state" where
  "writeNewspaper nid newspaper source st =
     st\<lparr>papers := AList.update nid newspaper (papers st),
        writes := writes st @ [(nid, newspaper, source)]\<rparr>"

text \<open>
  The update of an existing record; the result is the record and the flag \<open>updated\<close>.
  \<^verbatim>\<open>
    if (newspaper.firstYear != date1 && isNewDateMoreSpecific(newspaper.firstYear, date1)) {
      newspaper.firstYear = date1; updated = true;
    }
    if (newspaper.finalYear != date2 && isNewDateMoreSpecific(newspaper.finalYear, date2)) {
      newspaper.finalYear = date2; updated = true;
    }
    isCurrentlyPublished = newspaper.finalYear == "9999";
    if (newspaper.isCurrent != isCurrentlyPublished) {
      newspaper.isCurrent = isCurrentlyPublished; updated = true;
    }
  \<close>
  A stored record without a first or final year makes \<open>isNewDateMoreSpecific\<close> call
  \<open>endsWith\<close> on \<open>undefined\<close>, a TypeError.
\<close>

definition updateDates :: "newspaper \<Rightarrow> string \<Rightarrow> string \<Rightarrow> js_error + newspaper \<times> bool" where
  "updateDates newspaper d1 d2 =
     (case firstYear newspaper of
        None \<Rightarrow> Inl TypeError
      | Some storedFirst \<Rightarrow>
          (let changeFirst = (storedFirst \<noteq> d1 \<and> isNewDateMoreSpecific storedFirst d1);
               newspaper1 = (if changeFirst then newspaper\<lparr>firstYear := Some d1\<rparr> else newspaper)
           in case finalYear newspaper1 of
                None \<Rightarrow> Inl TypeError
              | Some storedFinal \<Rightarrow>
                  (let changeFinal = (storedFinal \<noteq> d2 \<and> isNewDateMoreSpecific storedFinal d2);
                       newspaper2 =
                         (if changeFinal then newspaper1\<lparr>finalYear := Some d2\<rparr> else newspaper1);
                       isCurrentlyPublished = (finalYear newspaper2 = Some ''9999'');
                       changeCurrent = (isCurrent newspaper2 \<noteq> Some isCurrentlyPublished);
                       newspaper3 =
                         (if changeCurrent then newspaper2\<lparr>isCurrent := Some isCurrentlyPublished\<rparr>
                          else newspaper2)
                   in Inr (newspaper3, changeFirst \<or> changeFinal \<or> changeCurrent))))"

text \<open>
  The record built for an unrecognised control number.
  \<^verbatim>\<open>
    let isCurrentlyPublished = typeOfDate == "c";      // after reading field 008
    ...
    newRecord = {};
    newRecord.id = newspaperId;
    newRecord.title = nznShared.titleCleanup(title);
    newRecord.genre = "Unknown";
    newRecord.idMarcControlNumber = marcControlNumber;
    newRecord.isCurrent = isCurrentlyPublished;
    newRecord.firstYear = date1;
    newRecord.finalYear = date2;
    if (frequency) newRecord.frequency = frequency;
    newRecord.placename = placename;
    if (placeData[placename]) {
      newRecord.placecode = placeData[placename]["placecode"];
      newRecord.district = placeData[placename]["district"];
      newRecord.region = placeData[placename]["region"];
    } else {
      newRecord.placecode = "unknown";
      newRecord.district = "Unknown District";
      newRecord.region = "Unknown Region";
    }
  \<close>
\<close>

definition newRecord ::
  "(string option \<Rightarrow> string option) \<Rightarrow> (string \<rightharpoonup> place) \<Rightarrow> string \<Rightarrow> parsed \<Rightarrow> newspaper" where
  "newRecord titleCleanup placeData nid p =
     (let isCurrentlyPublished = (typeOfDate (bibInfo p) = ''c'');
          known = placeData (jsString (bibPlacename p))
      in \<lparr>ident = Some nid,
          title = titleCleanup (bibTitle p),
          genre = Some ''Unknown'',
          idMarcControlNumber = marcControlNumber p,
          isCurrent = Some isCurrentlyPublished,
          firstYear = Some (date1 (bibInfo p)),
          finalYear = Some (date2 (bibInfo p)),
          frequency = (if falsy (bibFrequency p) then None else bibFrequency p),
          placename = bibPlacename p,
          placecode = (case known of Some pl \<Rightarrow> fst pl | None \<Rightarrow> Some ''unknown''),
          district = (case known of Some pl \<Rightarrow> fst (snd pl) | None \<Rightarrow> Some ''Unknown District''),
          region = (case known of Some pl \<Rightarrow> snd (snd pl) | None \<Rightarrow> Some ''Unknown Region'')\<rparr>)"

definition updateNote :: "string option \<Rightarrow> string" where
  "updateNote marcNumber =
     ''Date updated from the New Zealand National Bibliography (MARC record ''
     @ jsString marcNumber @ '') downloaded June 2022.''"

definition createNote :: "string option \<Rightarrow> string" where
  "createNote marcNumber =
     ''Extracted from the New Zealand National Bibliography (MARC record ''
     @ jsString marcNumber @ '') downloaded June 2022.''"

text \<open>
  The classification, from \<open>if (!marcControlNumber)\<close> to the end of the \<open>else\<close> branch
  that adds a record. The result is the state and the value of \<open>newspaperId\<close> after it,
  which the create branch assigns.
\<close>

definition reconcile ::
  "(string option \<Rightarrow> string option) \<Rightarrow> ((string \<times> newspaper) list \<Rightarrow> string) \<Rightarrow>
   (string \<rightharpoonup> place) \<Rightarrow> parsed \<Rightarrow> run_state \<Rightarrow> js_error + run_state \<times> string option" where
  "reconcile titleCleanup getNextNewspaperId placeData p st =
     (if falsy (marcControlNumber p) then
        Inr (addStats ''count-skipped-no-nz-control-number'' st, newspaperId p)
      else if isMicroformResource p then
        Inr (addStats ''count-skipped-micoform'' st, newspaperId p)
      else if isElectronicResource p then
        Inr (addStats ''count-skipped-electronic'' st, newspaperId p)
      else if infrequent p then
        Inr (addStats ''count-skipped-infrequent'' st, newspaperId p)
      else if falsy (bibPlacename p) then
        Inr (addStats ''count-skipped-placename'' st, newspaperId p)
      else if \<not> falsy (newspaperId p) then
        (let st1 = addStats ''count-existing-record'' st;
             nid = jsString (newspaperId p)
         in case readNewspaper st1 nid of
              Inl e \<Rightarrow> Inl e
            | Inr newspaper \<Rightarrow>
                (case updateDates newspaper (date1 (bibInfo p)) (date2 (bibInfo p)) of
                   Inl e \<Rightarrow> Inl e
                 | Inr (newspaper', updated) \<Rightarrow>
                     if updated then
                       Inr (writeNewspaper nid newspaper' (updateNote (marcControlNumber p))
                              (addStats ''count-existing-record-updated'' st1),
                            newspaperId p)
                     else Inr (st1, newspaperId p)))
      else
        (let st1 = addStats ''count-new-record'' st;
             nid = getNextNewspaperId (papers st1);
             st2 = (if stringLess ''130402'' (dateOnFile (bibInfo p))
                    then addStats ''count-new-record-since-last-load'' st1 else st1)
         in Inr (writeNewspaper nid (newRecord titleCleanup placeData nid p)
                   (createNote (marcControlNumber p)) st2,
                 Some nid)))"

text \<open>
  After the classification the MARC record is written out as text when there is an id
  and a control number.
  \<^verbatim>\<open>
    if (newspaperId && marcControlNumber) { ... writer.write(record); writer.end(); }
  \<close>
\<close>

definition writeMarcFile :: "parsed \<Rightarrow> run_state \<times> string option \<Rightarrow> run_state" where
  "writeMarcFile p res =
     (if \<not> falsy (snd res) \<and> \<not> falsy (marcControlNumber p)
      then (fst res)\<lparr>marcFiles := marcFiles (fst res) @ [jsString (snd res)]\<rparr>
      else fst res)"

text \<open>
  The handler of the reader's \<open>data\<close> event.
  \<^verbatim>\<open>
    recordCounter += 1;
    const recordType = record.leader.charAt(6);
    const recordBibLevel = record.leader.charAt(7);
    if (recordType == "a" && recordBibLevel == "s") {
      serialCounter += 1;
      ... field 008 ...
      if (continuingResourceType == "n") {
        newspaperCounter += 1;
        ... fields 035, 245, 130, 250, 300, 310, 655, 260 ...
        ... classification, MARC text file ...
      }
    }
  \<close>
  The uniform title, the edition and the genre (fields 130, 250 and 655) are read into
  variables that only the disabled debug output uses.
\<close>

definition onData ::
  "(string option \<Rightarrow> string option) \<Rightarrow> ((string \<times> newspaper) list \<Rightarrow> string) \<Rightarrow>
   (string \<rightharpoonup> string) \<Rightarrow> (string \<rightharpoonup> place) \<Rightarrow> run_state \<Rightarrow> marc_record \<Rightarrow> js_error + run_state" where
  "onData titleCleanup getNextNewspaperId marcNumberToNewspaperId placeData st r =
     (let st1 = st\<lparr>recordCounter := recordCounter st + 1\<rparr> in
      if charAt (leader r) 6 = ''a'' \<and> charAt (leader r) 7 = ''s'' then
        (let st2 = st1\<lparr>serialCounter := serialCounter st1 + 1\<rparr> in
         case generalInfo r of
           None \<Rightarrow> Inr st2
         | Some info \<Rightarrow>
             if continuingResourceType info = ''n'' then
               (let st3 = st2\<lparr>newspaperCounter := newspaperCounter st2 + 1\<rparr>;
                    p = parseNewspaper titleCleanup marcNumberToNewspaperId r info
                in case reconcile titleCleanup getNextNewspaperId placeData p st3 of
                     Inl e \<Rightarrow> Inl e
                   | Inr res \<Rightarrow> Inr (writeMarcFile p res))
             else Inr st2)
      else Inr st1)"

text \<open>
  A run of the tool over the store and the records of the MARC file: the scan of the
  existing records, which may throw, then the handler on each record in turn.
\<close>

definition initialState :: "(string \<times> newspaper) list \<Rightarrow> run_state" where
  "initialState newspaperRecords =
     \<lparr>stats = Map.empty, recordCounter = 0, serialCounter = 0, newspaperCounter = 0,
      papers = newspaperRecords, writes = [], marcFiles = []\<rparr>"

definition readMarcFile ::
  "(string option \<Rightarrow> string option) \<Rightarrow> ((string \<times> newspaper) list \<Rightarrow> string) \<Rightarrow>
   (string \<times> newspaper) list \<Rightarrow> marc_record list \<Rightarrow> js_error + run_state" where
  "readMarcFile titleCleanup getNextNewspaperId newspaperRecords marcFile =
     (case scanRecords newspaperRecords of
        Inl e \<Rightarrow> Inl e
      | Inr tables \<Rightarrow>
          foldE (onData titleCleanup getNextNewspaperId (fst tables) (snd tables))
            (initialState newspaperRecords) marcFile)"

section \<open>The classification as the specification words it\<close>

text \<open>
  The skip conditions as a prioritised list of rules, each a predicate on the parsed
  record and the counter it increments; the first rule whose predicate holds decides.
  \<open>statCount\<close> reads a counter of the statistics, an absent one as zero, and
  \<open>nzNumbers\<close> lists the control numbers of a record: the values of its 035 subfields
  \<open>a\<close> that start with \<open>(Nz)\<close>, without that prefix.
\<close>

definition skipRules :: "((parsed \<Rightarrow> bool) \<times> string) list" where
  "skipRules =
     [(\<lambda>p. falsy (marcControlNumber p), ''count-skipped-no-nz-control-number''),
      (\<lambda>p. isMicroformResource p, ''count-skipped-micoform''),
      (\<lambda>p. isElectronicResource p, ''count-skipped-electronic''),
      (\<lambda>p. infrequent p, ''count-skipped-infrequent''),
      (\<lambda>p. falsy (bibPlacename p), ''count-skipped-placename'')]"

definition skipLabel :: "parsed \<Rightarrow> string option" where
  "skipLabel p = map_option snd (find (\<lambda>rule. fst rule p) skipRules)"

definition statCount :: "run_state \<Rightarrow> string \<Rightarrow> nat" where
  "statCount st label = (case stats st label of None \<Rightarrow> 0 | Some n \<Rightarrow> n)"

definition nzNumbers :: "marc_record \<Rightarrow> string list" where
  "nzNumbers r =
     map (\<lambda>pair. drop 4 (snd pair))
       (filter (\<lambda>pair. fst pair = ''a'' \<and> startsWith (snd pair) ''(Nz)'') (subfields r ''035''))"

section \<open>Sample inputs\<close>

text \<open>
  Concrete inputs on which the model is evaluated. \<open>sampleRecord\<close> is a serial record
  (leader positions 6 and 7 are \<open>a\<close> and \<open>s\<close>) with one 008 field, one control number,
  a title, a place and a frequency. \<open>longerId\<close> stands in for
  \<open>getNextNewspaperId\<close>: it returns an id longer than every id of the store, hence one
  that is not in use.
\<close>

definition sampleRecord :: "string \<Rightarrow> string \<Rightarrow> string \<Rightarrow> string \<Rightarrow> marc_record" where
  "sampleRecord info controlNumber place freq =
     \<lparr>leader = ''00000nas a2200000 a 4500'',
      controlFields = [(''008'', info)],
      dataFields =
        [(''035'', [(''a'', controlNumber)]),
         (''245'', [(''a'', ''Evening post'')]),
         (''260'', [(''a'', place)]),
         (''310'', [(''a'', freq)])]\<rparr>"

definition longerId :: "(string \<times> newspaper) list \<Rightarrow> string" where
  "longerId newspaperRecords =
     replicate (Suc (foldr (\<lambda>entry n. max (length (fst entry)) n) newspaperRecords 0)) CHR ''1''"

definition sampleNewspaper :: "string \<Rightarrow> string \<Rightarrow> string \<Rightarrow> string \<Rightarrow> bool \<Rightarrow> newspaper" where
  "sampleNewspaper nid controlNumber first final current =
     \<lparr>ident = Some nid, title = Some ''Evening Post'', genre = Some ''Newspaper'',
      idMarcControlNumber = Some controlNumber, isCurrent = Some current,
      firstYear = Some first, finalYear = Some final, frequency = None,
      placename = Some ''Wellington'', placecode = Some ''09-01'',
      district = Some ''Wellington City'', region = Some ''Wellington''\<rparr>"

text \<open>
  The state once the handler has counted a record as a record, a serial and a newspaper.
\<close>

definition counted :: "run_state \<Rightarrow> run_state" where
  "counted st =
     st\<lparr>recordCounter := recordCounter st + 1, serialCounter := serialCounter st + 1,
        newspaperCounter := newspaperCounter st + 1\<rparr>"

text \<open>
  The field-by-field rule of the specification for a stored date and the date of the
  record: the new date replaces the stored one if and only if it differs from it and is
  more specific.
\<close>

definition reconciledDate :: "string \<Rightarrow> string \<Rightarrow> string" where
  "reconciledDate stored new =
     (if new \<noteq> stored \<and> isNewDateMoreSpecific stored new then new else stored)"

text \<open>What a run leaves behind, when it ends without an exception.\<close>

definition storeAfter :: "js_error + run_state \<Rightarrow> (string \<times> newspaper) list option" where
  "storeAfter res = (case res of Inl e \<Rightarrow> None | Inr st \<Rightarrow> Some (papers st))"

definition writesAfter :: "js_error + run_state \<Rightarrow> (string \<times> newspaper \<times> string) list option" where
  "writesAfter res = (case res of Inl e \<Rightarrow> None | Inr st \<Rightarrow> Some (writes st))"

section \<open>Notions for comparing two runs\<close>

text \<open>
  \<open>resolve\<close> is the value of \<open>newspaperId\<close> after the loop over the control numbers:
  the id of the last control number that the index knows. A record is \<open>processed\<close>
  when the handler takes it to the update or the create branch: it is a newspaper record
  and passes the five skip checks (which do not depend on the index). Its dates are
  \<open>consistent\<close> when the type of date is \<open>c\<close> exactly if the final year is \<open>9999\<close>, as
  MARC 21 prescribes. \<open>claimedPairs\<close> lists the non-empty control numbers of a store
  with the ids that claim them, and a stored record is \<open>settled\<close> for two dates when
  the update of an existing record changes nothing in it.
\<close>

definition resolve :: "(string \<rightharpoonup> string) \<Rightarrow> string list \<Rightarrow> string option" where
  "resolve idx numbers = foldl (\<lambda>found c. if \<not> falsy (idx c) then idx c else found) None numbers"

definition infoOf :: "marc_record \<Rightarrow> general_info" where
  "infoOf r = (case generalInfo r of Some info \<Rightarrow> info | None \<Rightarrow> readGeneralInfo [])"

definition processed :: "(string option \<Rightarrow> string option) \<Rightarrow> marc_record \<Rightarrow> bool" where
  "processed titleCleanup r =
     (charAt (leader r) 6 = ''a'' \<and> charAt (leader r) 7 = ''s''
      \<and> (case generalInfo r of
            None \<Rightarrow> False
          | Some info \<Rightarrow>
              continuingResourceType info = ''n''
              \<and> skipLabel (parseNewspaper titleCleanup Map.empty r info) = None))"

definition consistentDates :: "marc_record \<Rightarrow> bool" where
  "consistentDates r = ((typeOfDate (infoOf r) = ''c'') = (date2 (infoOf r) = ''9999''))"

fun claimedPairs :: "(string \<times> newspaper) list \<Rightarrow> (string \<times> string) list" where
  "claimedPairs [] = []"
| "claimedPairs (entry # S) =
     (case idMarcControlNumber (snd entry) of
        None \<Rightarrow> claimedPairs S
      | Some c \<Rightarrow> if c = [] then claimedPairs S else (c, fst entry) # claimedPairs S)"

definition settled :: "newspaper \<Rightarrow> marc_record \<Rightarrow> bool" where
  "settled nw r = (updateDates nw (date1 (infoOf r)) (date2 (infoOf r)) = Inr (nw, False))"

definition disjointNumbers :: "marc_record \<Rightarrow> marc_record \<Rightarrow> bool" where
  "disjointNumbers r r' = (set (nzNumbers r) \<inter> set (nzNumbers r') = {})"

text \<open>
  The invariant of a first run. After the records \<open>P\<close> of the file, the store consists
  of the entries it started with, each under its id and with its control number, followed
  by the entries created so far, one for each record of \<open>P\<close> that was taken to the
  create branch and in that order: each under a new id, with the last control number of
  its record, and settled for it. And every processed record of \<open>P\<close> that resolved to
  an existing id finds a settled record there.
\<close>

definition sameEntry :: "string \<times> newspaper \<Rightarrow> string \<times> newspaper \<Rightarrow> bool" where
  "sameEntry a b = (fst a = fst b \<and> idMarcControlNumber (snd a) = idMarcControlNumber (snd b))"

definition creates ::
  "(string option \<Rightarrow> string option) \<Rightarrow> (string \<rightharpoonup> string) \<Rightarrow> marc_record \<Rightarrow> bool" where
  "creates titleCleanup idx r = (processed titleCleanup r \<and> falsy (resolve idx (nzNumbers r)))"

definition createdFor :: "(string \<times> newspaper) list \<Rightarrow> string \<times> newspaper \<Rightarrow> marc_record \<Rightarrow> bool" where
  "createdFor S0 entry r =
     (fst entry \<notin> fst ` set S0 \<and> fst entry \<noteq> []
      \<and> idMarcControlNumber (snd entry) = Some (last (nzNumbers r))
      \<and> settled (snd entry) r)"

definition firstRunInvariant ::
  "(string option \<Rightarrow> string option) \<Rightarrow> (string \<rightharpoonup> string) \<Rightarrow> (string \<times> newspaper) list \<Rightarrow>
   marc_record list \<Rightarrow> (string \<times> newspaper) list \<Rightarrow> bool" where
  "firstRunInvariant titleCleanup idx0 S0 P S =
     (\<exists>U C. S = U @ C \<and> list_all2 sameEntry S0 U
        \<and> list_all2 (createdFor S0) C (filter (creates titleCleanup idx0) P)
        \<and> distinct (map fst C)
        \<and> (\<forall>r \<in> set P. processed titleCleanup r \<longrightarrow>
              (\<forall>e. resolve idx0 (nzNumbers r) = Some e \<longrightarrow>
                 (\<exists>nw. map_of U e = Some nw \<and> settled nw r))))"

section \<open>Verification: partial dates\<close>

lemma endsWith_u: "endsWith s ''u'' \<longleftrightarrow> 1 \<le> trailingUnknown s"
proof (cases s rule: rev_cases)
  case Nil
  then show ?thesis by (simp add: endsWith_def trailingUnknown_def)
next
  case (snoc ys y)
  then show ?thesis by (auto simp: endsWith_def trailingUnknown_def)
qed

lemma endsWith_uu: "endsWith s ''uu'' \<longleftrightarrow> 2 \<le> trailingUnknown s"
proof (cases s rule: rev_cases)
  case Nil
  then show ?thesis by (simp add: endsWith_def trailingUnknown_def)
next
  case s1: (snoc ys y)
  show ?thesis
  proof (cases ys rule: rev_cases)
    case Nil
    with s1 show ?thesis by (simp add: endsWith_def trailingUnknown_def)
  next
    case (snoc zs z)
    with s1 show ?thesis by (auto simp: endsWith_def trailingUnknown_def)
  qed
qed

lemma endsWith_uuu: "endsWith s ''uuu'' \<longleftrightarrow> 3 \<le> trailingUnknown s"
proof (cases s rule: rev_cases)
  case Nil
  then show ?thesis by (simp add: endsWith_def trailingUnknown_def)
next
  case s1: (snoc ys y)
  show ?thesis
  proof (cases ys rule: rev_cases)
    case Nil
    with s1 show ?thesis by (simp add: endsWith_def trailingUnknown_def)
  next
    case s2: (snoc zs z)
    show ?thesis
    proof (cases zs rule: rev_cases)
      case Nil
      with s1 s2 show ?thesis by (simp add: endsWith_def trailingUnknown_def)
    next
      case (snoc ws w)
      with s1 s2 show ?thesis by (auto simp: endsWith_def trailingUnknown_def)
    qed
  qed
qed

lemma no_unknown_marker: "CHR ''u'' \<notin> set s \<Longrightarrow> trailingUnknown s = 0"
  by (cases s rule: rev_cases) (auto simp: trailingUnknown_def)

text \<open>
  Claim C1. For all date tokens, \<open>isNewDateMoreSpecific\<close> computes the decision table of
  the specification, its six rules tried in order with the first match deciding: false when
  the current date does not end in an unknown marker; false when the candidate is
  \<open>uuuu\<close> or \<open>9999\<close>; true when the current date is \<open>uuuu\<close> or \<open>9999\<close>; true when
  the current date ends in three unknown markers; when it ends in exactly two, true unless
  the candidate ends in three; when it ends in exactly one, true unless the candidate ends
  in two or more. The result is false whenever the current date holds no unknown marker,
  and the listed literal cases evaluate as the specification gives them. The equation holds
  for strings of any length, the four-character tokens among them.
\<close>

theorem isNewDateMoreSpecific_decision_table:
  "isNewDateMoreSpecific cur cand = isMoreSpecific cur cand
   \<and> (CHR ''u'' \<notin> set cur \<longrightarrow> isNewDateMoreSpecific cur cand = False)
   \<and> isNewDateMoreSpecific ''9999'' ''1970'' = False
   \<and> isNewDateMoreSpecific ''uuuu'' ''1970'' = True
   \<and> isNewDateMoreSpecific ''1uuu'' ''1970'' = True
   \<and> isNewDateMoreSpecific ''19uu'' ''197u'' = True
   \<and> isNewDateMoreSpecific ''19uu'' ''1uuu'' = False
   \<and> isNewDateMoreSpecific ''197u'' ''19uu'' = False
   \<and> isNewDateMoreSpecific ''197u'' ''1970'' = True"
proof -
  have table: "isNewDateMoreSpecific cur cand = isMoreSpecific cur cand"
    unfolding isNewDateMoreSpecific_def isMoreSpecific_def dateRules_def
    by (simp add: endsWith_u endsWith_uu endsWith_uuu) arith
  have no_marker: "CHR ''u'' \<notin> set cur \<longrightarrow> isNewDateMoreSpecific cur cand = False"
    by (simp add: isNewDateMoreSpecific_def endsWith_u no_unknown_marker)
  have literals:
    "isNewDateMoreSpecific ''9999'' ''1970'' = False"
    "isNewDateMoreSpecific ''uuuu'' ''1970'' = True"
    "isNewDateMoreSpecific ''1uuu'' ''1970'' = True"
    "isNewDateMoreSpecific ''19uu'' ''197u'' = True"
    "isNewDateMoreSpecific ''19uu'' ''1uuu'' = False"
    "isNewDateMoreSpecific ''197u'' ''19uu'' = False"
    "isNewDateMoreSpecific ''197u'' ''1970'' = True"
    by (simp_all add: isNewDateMoreSpecific_def endsWith_def)
  from table no_marker literals show ?thesis by blast
qed

theorem isNewDateMoreSpecific_decision_table_witness:
  "CHR ''u'' \<notin> set ''1970''
   \<and> isNewDateMoreSpecific ''1970'' ''1975'' = False
   \<and> isNewDateMoreSpecific ''1970'' ''1975'' = isMoreSpecific ''1970'' ''1975''"
proof -
  have h: "CHR ''u'' \<notin> set ''1970''" by simp
  from isNewDateMoreSpecific_decision_table [of "''1970''" "''1975''"] h
  show ?thesis by blast
qed

section \<open>Verification: mode of operation\<close>

text \<open>
  Claim C8 says that a run without a mode argument falls back to \<open>report\<close> and goes on.
  The \<open>default\<close> branch of the switch is written for that, and an unrecognised argument
  does take it; but with no argument at all the switch's operand
  \<open>commandArgs[0].toLowerCase()\<close> throws before any branch is reached, so the script
  stops with an uncaught TypeError. The theorem evaluates both inputs.
\<close>

theorem selectMode_without_argument_throws:
  "selectMode [''node'', ''nzn-summarise.js''] = Inl TypeError
   \<and> selectMode [''node'', ''nzn-summarise.js'', ''Statistics''] = Inr ''report''
   \<and> selectMode [''node'', ''nzn-summarise.js'', ''Add-New-Records''] = Inr ''add-new-records''"
  by (simp add: selectMode_def toLowerCase_def toLowerChar_def)

section \<open>Verification: the tab-separated import\<close>

lemma mergeColumn_other:
  assumes "\<not> (fieldOfColumn k = Some f \<and> (isGenericColumn k \<longrightarrow> v \<noteq> []))"
  shows "map_of (mergeColumn recId newspaper (k, v)) f = map_of newspaper f"
proof -
  consider (id) "k = ''Id''" | (cur) "k = ''Current?''" | (pl) "k = ''Placecode''"
    | (modif) "k = ''Modified At'' \<or> k = ''Modified By''" | (gen) "isGenericColumn k"
    by (auto simp: isGenericColumn_def)
  then show ?thesis
  proof cases
    case id
    with assms have "f \<noteq> ''id''" by (simp add: fieldOfColumn_def isGenericColumn_def)
    with id show ?thesis by (simp add: mergeColumn_def update_conv' split: option.splits)
  next
    case cur
    with assms have "f \<noteq> ''is-current''" by (simp add: fieldOfColumn_def isGenericColumn_def)
    with cur show ?thesis by (simp add: mergeColumn_def update_conv')
  next
    case pl
    with assms have "f \<noteq> ''nzn-placecode''" by (simp add: fieldOfColumn_def isGenericColumn_def)
    with pl show ?thesis by (simp add: mergeColumn_def update_conv')
  next
    case modif
    then show ?thesis by (auto simp add: mergeColumn_def)
  next
    case gen
    then have ks: "k \<noteq> ''Id''" "k \<noteq> ''Current?''" "k \<noteq> ''Placecode''"
      "k \<noteq> ''Modified At''" "k \<noteq> ''Modified By''"
      by (simp_all add: isGenericColumn_def)
    from gen assms ks have "v = [] \<or> f \<noteq> replaceAllSpaces (toLowerCase k)"
      by (auto simp add: fieldOfColumn_def)
    with ks show ?thesis by (auto simp add: mergeColumn_def update_conv')
  qed
qed

lemma foldl_mergeColumn_frame:
  "\<forall>(k, v) \<in> set row. fieldOfColumn k = Some f \<longrightarrow> isGenericColumn k \<and> v = [] \<Longrightarrow>
   map_of (foldl (mergeColumn recId) newspaper row) f = map_of newspaper f"
proof (induction row arbitrary: newspaper)
  case Nil
  then show ?case by simp
next
  case (Cons kv row)
  obtain k v where kv: "kv = (k, v)" by (cases kv)
  from Cons.prems kv have here: "\<not> (fieldOfColumn k = Some f \<and> (isGenericColumn k \<longrightarrow> v \<noteq> []))"
    by auto
  from Cons.prems have rest:
    "\<forall>(k, v) \<in> set row. fieldOfColumn k = Some f \<longrightarrow> isGenericColumn k \<and> v = []"
    by simp
  have "map_of (foldl (mergeColumn recId) (mergeColumn recId newspaper kv) row) f
        = map_of (mergeColumn recId newspaper kv) f"
    by (rule Cons.IH [OF rest])
  also have "\<dots> = map_of newspaper f"
    unfolding kv by (rule mergeColumn_other [OF here])
  finally show ?case by simp
qed


lemma fieldOfColumn_simps:
  "fieldOfColumn ''Id'' = Some ''id''"
  "fieldOfColumn ''Current?'' = Some ''is-current''"
  "fieldOfColumn ''Placecode'' = Some ''nzn-placecode''"
  "fieldOfColumn ''Modified At'' = None"
  "fieldOfColumn ''Modified By'' = None"
  by (simp_all add: fieldOfColumn_def)

lemma mergeColumn_generic_empty:
  "isGenericColumn key \<Longrightarrow> mergeColumn recId newspaper (key, []) = newspaper"
  by (simp add: mergeColumn_def isGenericColumn_def)

lemma mergeColumn_mapped:
  "map_of (mergeColumn recId newspaper (''Current?'', cell)) ''is-current'' = Some (JStr cell)"
  "map_of (mergeColumn recId newspaper (''Placecode'', cell)) ''nzn-placecode'' = Some (JStr cell)"
  by (simp_all add: mergeColumn_def update_conv')

lemma bumpRevision_revision:
  "map_of (bumpRevision newspaper) ''revision'' =
     Some (case map_of newspaper ''revision'' of
             None \<Rightarrow> JNum 1
           | Some r \<Rightarrow> if truthy r then plusOne r else JNum 1)"
  by (simp add: bumpRevision_def update_conv' split: option.splits)

lemma not_generic_cases:
  "\<not> isGenericColumn k \<Longrightarrow>
   k = ''Id'' \<or> k = ''Current?'' \<or> k = ''Placecode'' \<or> k = ''Modified At'' \<or> k = ''Modified By''"
  by (simp add: isGenericColumn_def)

lemma same_field_generic:
  assumes key: "key = ''Current?'' \<or> key = ''Placecode''"
    and neq: "k \<noteq> key" and same: "fieldOfColumn k = fieldOfColumn key"
  shows "isGenericColumn k"
proof (rule ccontr)
  assume "\<not> isGenericColumn k"
  from not_generic_cases [OF this] key neq same show False
    by (elim disjE) (simp_all add: fieldOfColumn_simps)
qed

lemma mergeRow_mapped_column:
  assumes col: "(key, cell) \<in> set row"
    and key: "key = ''Current?'' \<or> key = ''Placecode''"
    and uniq: "distinct (map fst row)"
    and others: "\<forall>(k, v) \<in> set row. k \<noteq> key \<longrightarrow> fieldOfColumn k = fieldOfColumn key \<longrightarrow> v = []"
  shows "map_of (mergeRow newspaper row) (the (fieldOfColumn key)) = Some (JStr cell)"
proof -
  from col obtain xs ys where row: "row = xs @ (key, cell) # ys"
    by (auto dest: split_list)
  from key obtain f where f: "fieldOfColumn key = Some f"
    by (auto simp: fieldOfColumn_simps)
  let ?recId = "map_of row ''Id''"
  let ?mid = "foldl (mergeColumn ?recId) newspaper xs"
  from key have step: "map_of (mergeColumn ?recId ?mid (key, cell)) f = Some (JStr cell)"
  proof
    assume "key = ''Current?''"
    with f mergeColumn_mapped(1) [of ?recId ?mid cell] show ?thesis
      by (simp add: fieldOfColumn_simps)
  next
    assume "key = ''Placecode''"
    with f mergeColumn_mapped(2) [of ?recId ?mid cell] show ?thesis
      by (simp add: fieldOfColumn_simps)
  qed
  have after: "\<forall>(k, v) \<in> set ys. fieldOfColumn k = Some f \<longrightarrow> isGenericColumn k \<and> v = []"
  proof (clarify)
    fix k v assume in_ys: "(k, v) \<in> set ys" and names: "fieldOfColumn k = Some f"
    from uniq have "distinct (map fst (xs @ (key, cell) # ys))" unfolding row .
    then have "key \<notin> fst ` set ys" by simp
    moreover from in_ys have "fst (k, v) \<in> fst ` set ys" by (rule imageI)
    ultimately have neq: "k \<noteq> key" by auto
    from in_ys have "(k, v) \<in> set row" unfolding row by simp
    with others have "k \<noteq> key \<longrightarrow> fieldOfColumn k = fieldOfColumn key \<longrightarrow> v = []"
      by blast
    with neq names f have "v = []" by simp
    moreover from names f have "fieldOfColumn k = fieldOfColumn key" by simp
    from same_field_generic [OF key neq this] have "isGenericColumn k" .
    ultimately show "isGenericColumn k \<and> v = []" by simp
  qed
  have "mergeRow newspaper row = foldl (mergeColumn ?recId) newspaper (xs @ (key, cell) # ys)"
    unfolding mergeRow_def by (subst (2) row) (rule refl)
  then have "map_of (mergeRow newspaper row) f
        = map_of (foldl (mergeColumn ?recId) (mergeColumn ?recId ?mid (key, cell)) ys) f"
    by simp
  also have "\<dots> = map_of (mergeColumn ?recId ?mid (key, cell)) f"
    by (rule foldl_mergeColumn_frame [OF after])
  finally show ?thesis using step f by simp
qed

text \<open>
  Claim C10. In the merge loop, a generic column (any column but Id, Current?, Placecode,
  Modified At, Modified By) with an empty cell leaves the stored object as it is; the
  columns Current? and Placecode write their cell to \<open>is-current\<close> and
  \<open>nzn-placecode\<close> whatever it is, the empty string included, and in a row with distinct
  column names that value is what the loop leaves there unless another, non-empty column
  is written to the same field; and a stored field that is named by no column of the row,
  or only by generic columns with empty cells, has after the loop the value it had before.
\<close>

theorem mergeRow_frame:
  "(isGenericColumn key \<longrightarrow> mergeColumn recId newspaper (key, []) = newspaper)
   \<and> map_of (mergeColumn recId newspaper (''Current?'', cell)) ''is-current'' = Some (JStr cell)
   \<and> map_of (mergeColumn recId newspaper (''Placecode'', cell)) ''nzn-placecode'' = Some (JStr cell)
   \<and> ((mapped, cell) \<in> set row \<and> (mapped = ''Current?'' \<or> mapped = ''Placecode'')
        \<and> distinct (map fst row)
        \<and> (\<forall>(k, v) \<in> set row. k \<noteq> mapped \<longrightarrow> fieldOfColumn k = fieldOfColumn mapped \<longrightarrow> v = [])
      \<longrightarrow> map_of (mergeRow newspaper row) (the (fieldOfColumn mapped)) = Some (JStr cell))
   \<and> ((\<forall>(k, v) \<in> set row. fieldOfColumn k = Some f \<longrightarrow> isGenericColumn k \<and> v = [])
      \<longrightarrow> map_of (mergeRow newspaper row) f = map_of newspaper f)"
  using mergeColumn_generic_empty [of key recId newspaper]
    mergeColumn_mapped [of recId newspaper cell]
    mergeRow_mapped_column [of mapped cell row newspaper]
    foldl_mergeColumn_frame [of row f "map_of row ''Id''" newspaper]
  unfolding mergeRow_def [symmetric]
  by blast

lemma kebab_eval:
  "replaceAllSpaces (toLowerCase ''Title'') = ''title''"
  "replaceAllSpaces (toLowerCase ''First Year'') = ''first-year''"
  by (simp_all add: replaceAllSpaces_def toLowerCase_def toLowerChar_def)

theorem mergeRow_frame_witness:
  "isGenericColumn ''Title''
   \<and> mergeColumn (Some ''12'')
        [(''id'', JStr ''12''), (''title'', JStr ''Evening Post''), (''is-current'', JStr ''true'')]
        (''Title'', [])
       = [(''id'', JStr ''12''), (''title'', JStr ''Evening Post''), (''is-current'', JStr ''true'')]
   \<and> map_of (mergeRow
        [(''id'', JStr ''12''), (''title'', JStr ''Evening Post''), (''is-current'', JStr ''true'')]
        [(''Id'', ''12''), (''Title'', []), (''Current?'', []), (''First Year'', ''1865'')])
       ''is-current'' = Some (JStr [])
   \<and> map_of (mergeRow
        [(''id'', JStr ''12''), (''title'', JStr ''Evening Post''), (''is-current'', JStr ''true'')]
        [(''Id'', ''12''), (''Title'', []), (''Current?'', []), (''First Year'', ''1865'')])
       ''title'' = Some (JStr ''Evening Post'')"
proof -
  let ?nw = "[(''id'', JStr ''12''), (''title'', JStr ''Evening Post''), (''is-current'', JStr ''true'')]"
  let ?row = "[(''Id'', ''12''), (''Title'', []), (''Current?'', []), (''First Year'', ''1865'')]"
  have generic: "isGenericColumn ''Title''"
    by (simp add: isGenericColumn_def)
  have col: "(''Current?'', []) \<in> set ?row" "distinct (map fst ?row)"
    by simp_all
  have others: "\<forall>(k, v) \<in> set ?row. k \<noteq> ''Current?'' \<longrightarrow>
      fieldOfColumn k = fieldOfColumn ''Current?'' \<longrightarrow> v = []"
    by (simp add: fieldOfColumn_def kebab_eval)
  have unnamed: "\<forall>(k, v) \<in> set ?row. fieldOfColumn k = Some ''title'' \<longrightarrow> isGenericColumn k \<and> v = []"
    by (simp add: fieldOfColumn_def kebab_eval isGenericColumn_def)
  have field: "the (fieldOfColumn ''Current?'') = ''is-current''"
    by (simp add: fieldOfColumn_def)
  from mergeRow_frame [of "''Title''" "Some ''12''" ?nw "[]" "''Current?''" ?row "''title''"]
    generic col others unnamed field
  show ?thesis by simp
qed

lemma revision_column_frame:
  assumes "\<forall>(k, v) \<in> set row. replaceAllSpaces (toLowerCase k) = ''revision'' \<longrightarrow> v = []"
  shows "map_of (mergeRow newspaper row) ''revision'' = map_of newspaper ''revision''"
proof -
  have "\<forall>(k, v) \<in> set row. fieldOfColumn k = Some ''revision'' \<longrightarrow> isGenericColumn k \<and> v = []"
  proof (clarify)
    fix k v assume kv: "(k, v) \<in> set row" and names: "fieldOfColumn k = Some ''revision''"
    have generic: "isGenericColumn k"
    proof (rule ccontr)
      assume "\<not> isGenericColumn k"
      from not_generic_cases [OF this] names show False
        by (elim disjE) (simp_all add: fieldOfColumn_simps)
    qed
    then have "fieldOfColumn k = Some (replaceAllSpaces (toLowerCase k))"
      by (simp add: fieldOfColumn_def isGenericColumn_def)
    with names have "replaceAllSpaces (toLowerCase k) = ''revision''" by simp
    with assms kv have "v = []" by blast
    with generic show "isGenericColumn k \<and> v = []" by simp
  qed
  then show ?thesis
    unfolding mergeRow_def by (rule foldl_mergeColumn_frame)
qed

lemma doubleAddOne_exact: "- (2 ^ 53) \<le> n \<Longrightarrow> n < 2 ^ 53 \<Longrightarrow> doubleAddOne n = n + 1"
  by (simp add: doubleAddOne_def)

text \<open>
  Claim C9 says that every write of \<open>updateNewspaperRecord\<close> sets the revision to 1
  when there is no prior record and to the stored revision plus 1 otherwise. The merge
  loop runs before the revision is touched and copies every non-empty generic column,
  a column named \<open>Revision\<close> included: for the row with Id 12 and Revision 5 and no
  file, the loop stores the string \<open>5\<close> and \<open>+= 1\<close> appends to it, so the revision
  written is the string \<open>51\<close>. A stored revision that is a string is appended to in the
  same way, and a stored revision of \<open>2^53\<close> is written back as it is, since the sum is
  rounded to a double. The last evaluation is the second of two rows with one id that is
  handled while the write of the first is still pending (\<open>fs.writeFile\<close> is
  asynchronous, the loop over the rows is not): it finds no file and writes revision 1,
  as the first did.
\<close>

theorem updateNewspaperRecord_revision_counterexample:
  "updateNewspaperRecord NoFile [(''Id'', ''12''), (''Revision'', ''5'')]
     = Inr [(''id'', JStr ''12''), (''revision'', JStr ''51'')]
   \<and> updateNewspaperRecord (Json [(''id'', JStr ''12''), (''revision'', JStr ''5'')])
        [(''Id'', ''12'')]
     = Inr [(''id'', JStr ''12''), (''revision'', JStr ''51'')]
   \<and> updateNewspaperRecord (Json [(''id'', JStr ''12''), (''revision'', JNum 9007199254740992)])
        [(''Id'', ''12'')]
     = Inr [(''id'', JStr ''12''), (''revision'', JNum 9007199254740992)]
   \<and> updateNewspaperRecord NoFile [(''Id'', ''12''), (''First Year'', ''1865'')]
     = Inr [(''id'', JStr ''12''), (''first-year'', JStr ''1865''), (''revision'', JNum 1)]"
  by (simp add: updateNewspaperRecord_def readExisting_def mergeRow_def mergeColumn_def
      bumpRevision_def replaceAllSpaces_def toLowerCase_def toLowerChar_def doubleAddOne_def)

text \<open>
  Claim C9 as amended. Let a row have no column with a non-empty cell that is written to
  the field \<open>revision\<close>. Then the object that \<open>updateNewspaperRecord\<close> writes for it
  has revision 1 when there is no file for the id or the stored object has no revision
  field, and revision \<open>n + 1\<close> when the stored revision is a number \<open>n\<close> from
  \<open>-2^53\<close> up to \<open>2^53 - 1\<close>. So a create writes revision 1, and an update of the same
  id that finds the object the create wrote (the write has completed before the file is
  read) writes revision 2.
\<close>

theorem updateNewspaperRecord_revision:
  assumes "\<forall>(k, v) \<in> set row. replaceAllSpaces (toLowerCase k) = ''revision'' \<longrightarrow> v = []"
    and "\<forall>(k, v) \<in> set row2. replaceAllSpaces (toLowerCase k) = ''revision'' \<longrightarrow> v = []"
  shows "(\<exists>w. updateNewspaperRecord NoFile row = Inr w \<and> map_of w ''revision'' = Some (JNum 1))
    \<and> (map_of ps ''revision'' = None \<longrightarrow>
         (\<exists>w. updateNewspaperRecord (Json ps) row = Inr w \<and> map_of w ''revision'' = Some (JNum 1)))
    \<and> (map_of ps ''revision'' = Some (JNum n) \<and> - (2 ^ 53) \<le> n \<and> n < 2 ^ 53 \<longrightarrow>
         (\<exists>w. updateNewspaperRecord (Json ps) row = Inr w
              \<and> map_of w ''revision'' = Some (JNum (n + 1))))
    \<and> (\<exists>w1. updateNewspaperRecord NoFile row = Inr w1
              \<and> map_of w1 ''revision'' = Some (JNum 1)
              \<and> (\<exists>w2. updateNewspaperRecord (Json w1) row2 = Inr w2
                     \<and> map_of w2 ''revision'' = Some (JNum 2)))"
proof -
  have written: "updateNewspaperRecord NoFile r = Inr (bumpRevision (mergeRow [] r))"
    "updateNewspaperRecord (Json qs) r = Inr (bumpRevision (mergeRow qs r))" for r qs
    by (simp_all add: updateNewspaperRecord_def readExisting_def)
  have rev: "map_of (bumpRevision (mergeRow qs row)) ''revision'' =
      Some (case map_of qs ''revision'' of None \<Rightarrow> JNum 1
            | Some r \<Rightarrow> if truthy r then plusOne r else JNum 1)" for qs
    by (simp only: bumpRevision_revision revision_column_frame [OF assms(1)])
  have rev2: "map_of (bumpRevision (mergeRow qs row2)) ''revision'' =
      Some (case map_of qs ''revision'' of None \<Rightarrow> JNum 1
            | Some r \<Rightarrow> if truthy r then plusOne r else JNum 1)" for qs
    by (simp only: bumpRevision_revision revision_column_frame [OF assms(2)])
  have create: "map_of (bumpRevision (mergeRow [] row)) ''revision'' = Some (JNum 1)"
    by (simp add: rev)
  have absent: "map_of ps ''revision'' = None \<longrightarrow>
      map_of (bumpRevision (mergeRow ps row)) ''revision'' = Some (JNum 1)"
    by (simp add: rev)
  have present: "map_of ps ''revision'' = Some (JNum n) \<and> - (2 ^ 53) \<le> n \<and> n < 2 ^ 53 \<longrightarrow>
      map_of (bumpRevision (mergeRow ps row)) ''revision'' = Some (JNum (n + 1))"
  proof
    assume stored: "map_of ps ''revision'' = Some (JNum n) \<and> - (2 ^ 53) \<le> n \<and> n < 2 ^ 53"
    then have "doubleAddOne n = n + 1" by (simp add: doubleAddOne_exact)
    with stored show "map_of (bumpRevision (mergeRow ps row)) ''revision'' = Some (JNum (n + 1))"
      by (simp add: rev)
  qed
  have "doubleAddOne 1 = 2" by (simp add: doubleAddOne_def)
  then have second: "map_of (bumpRevision (mergeRow (bumpRevision (mergeRow [] row)) row2)) ''revision''
      = Some (JNum 2)"
    by (simp add: rev2 create)
  from create absent present second show ?thesis
    by (simp add: written)
qed

theorem updateNewspaperRecord_revision_witness:
  "updateNewspaperRecord NoFile [(''Id'', ''12''), (''Title'', ''Evening Post''), (''Current?'', [])]
     = Inr [(''id'', JStr ''12''), (''title'', JStr ''Evening Post''), (''is-current'', JStr []),
            (''revision'', JNum 1)]
   \<and> updateNewspaperRecord
        (Json [(''id'', JStr ''12''), (''title'', JStr ''Evening Post''), (''is-current'', JStr []),
               (''revision'', JNum 1)])
        [(''Id'', ''12''), (''First Year'', ''1865'')]
     = Inr [(''id'', JStr ''12''), (''title'', JStr ''Evening Post''), (''is-current'', JStr []),
            (''revision'', JNum 2), (''first-year'', JStr ''1865'')]
   \<and> (\<exists>w. updateNewspaperRecord (Json [(''id'', JStr ''12''), (''revision'', JNum 41)])
             [(''Id'', ''12''), (''Title'', ''Evening Post''), (''Current?'', [])] = Inr w
          \<and> map_of w ''revision'' = Some (JNum 42))"
proof -
  let ?row = "[(''Id'', ''12''), (''Title'', ''Evening Post''), (''Current?'', [])]"
  let ?row2 = "[(''Id'', ''12''), (''First Year'', ''1865'')]"
  have no_rev: "\<forall>(k, v) \<in> set ?row. replaceAllSpaces (toLowerCase k) = ''revision'' \<longrightarrow> v = []"
    "\<forall>(k, v) \<in> set ?row2. replaceAllSpaces (toLowerCase k) = ''revision'' \<longrightarrow> v = []"
    by (simp_all add: replaceAllSpaces_def toLowerCase_def toLowerChar_def)
  have stored: "map_of [(''id'', JStr ''12''), (''revision'', JNum 41)] ''revision'' = Some (JNum 41)"
    "- (2 ^ 53) \<le> (41 :: int)" "(41 :: int) < 2 ^ 53"
    by simp_all
  have first: "updateNewspaperRecord NoFile ?row
     = Inr [(''id'', JStr ''12''), (''title'', JStr ''Evening Post''), (''is-current'', JStr []),
            (''revision'', JNum 1)]"
    by (simp add: updateNewspaperRecord_def readExisting_def mergeRow_def mergeColumn_def
        bumpRevision_def replaceAllSpaces_def toLowerCase_def toLowerChar_def)
  have second: "updateNewspaperRecord
        (Json [(''id'', JStr ''12''), (''title'', JStr ''Evening Post''), (''is-current'', JStr []),
               (''revision'', JNum 1)]) ?row2
     = Inr [(''id'', JStr ''12''), (''title'', JStr ''Evening Post''), (''is-current'', JStr []),
            (''revision'', JNum 2), (''first-year'', JStr ''1865'')]"
    by (simp add: updateNewspaperRecord_def readExisting_def mergeRow_def mergeColumn_def
        bumpRevision_def replaceAllSpaces_def toLowerCase_def toLowerChar_def doubleAddOne_def)
  from updateNewspaperRecord_revision [OF no_rev,
      of "[(''id'', JStr ''12''), (''revision'', JNum 41)]" 41] stored
  have "\<exists>w. updateNewspaperRecord (Json [(''id'', JStr ''12''), (''revision'', JNum 41)]) ?row = Inr w
          \<and> map_of w ''revision'' = Some (JNum 42)"
    by simp
  with first second show ?thesis by blast
qed

section \<open>Verification: place names\<close>









section \<open>Verification: the classification of a newspaper record\<close>

lemma addStats_fields [simp]:
  "stats (addStats label st) = (stats st)(label \<mapsto> Suc (statCount st label))"
  "recordCounter (addStats label st) = recordCounter st"
  "serialCounter (addStats label st) = serialCounter st"
  "newspaperCounter (addStats label st) = newspaperCounter st"
  "papers (addStats label st) = papers st"
  "writes (addStats label st) = writes st"
  "marcFiles (addStats label st) = marcFiles st"
  by (auto simp: addStats_def statCount_def split: option.splits)

lemma statCount_addStats:
  "statCount (addStats label st) l = (if l = label then Suc (statCount st label) else statCount st l)"
  by (simp add: statCount_def)

lemma writeNewspaper_fields [simp]:
  "stats (writeNewspaper nid n src st) = stats st"
  "recordCounter (writeNewspaper nid n src st) = recordCounter st"
  "serialCounter (writeNewspaper nid n src st) = serialCounter st"
  "newspaperCounter (writeNewspaper nid n src st) = newspaperCounter st"
  "papers (writeNewspaper nid n src st) = AList.update nid n (papers st)"
  "writes (writeNewspaper nid n src st) = writes st @ [(nid, n, src)]"
  "marcFiles (writeNewspaper nid n src st) = marcFiles st"
  by (simp_all add: writeNewspaper_def)

lemma statCount_writeNewspaper [simp]:
  "statCount (writeNewspaper nid n src st) l = statCount st l"
  by (simp add: statCount_def)

lemma writeMarcFile_fields [simp]:
  "stats (writeMarcFile p res) = stats (fst res)"
  "recordCounter (writeMarcFile p res) = recordCounter (fst res)"
  "serialCounter (writeMarcFile p res) = serialCounter (fst res)"
  "newspaperCounter (writeMarcFile p res) = newspaperCounter (fst res)"
  "papers (writeMarcFile p res) = papers (fst res)"
  "writes (writeMarcFile p res) = writes (fst res)"
  by (simp_all add: writeMarcFile_def)

lemma skipLabel_cases:
  "skipLabel p =
     (if falsy (marcControlNumber p) then Some ''count-skipped-no-nz-control-number''
      else if isMicroformResource p then Some ''count-skipped-micoform''
      else if isElectronicResource p then Some ''count-skipped-electronic''
      else if infrequent p then Some ''count-skipped-infrequent''
      else if falsy (bibPlacename p) then Some ''count-skipped-placename''
      else None)"
  by (simp add: skipLabel_def skipRules_def)

lemma skipLabel_None:
  "skipLabel p = None \<longleftrightarrow>
     \<not> falsy (marcControlNumber p) \<and> \<not> isMicroformResource p \<and> \<not> isElectronicResource p
     \<and> \<not> infrequent p \<and> \<not> falsy (bibPlacename p)"
  by (simp add: skipLabel_cases)

lemma reconcile_skip:
  assumes "skipLabel p = Some label"
  shows "reconcile titleCleanup getNextNewspaperId placeData p st
         = Inr (addStats label st, newspaperId p)"
proof -
  consider (a) "falsy (marcControlNumber p)"
    | (b) "\<not> falsy (marcControlNumber p)" "isMicroformResource p"
    | (c) "\<not> falsy (marcControlNumber p)" "\<not> isMicroformResource p" "isElectronicResource p"
    | (d) "\<not> falsy (marcControlNumber p)" "\<not> isMicroformResource p" "\<not> isElectronicResource p"
          "infrequent p"
    | (e) "\<not> falsy (marcControlNumber p)" "\<not> isMicroformResource p" "\<not> isElectronicResource p"
          "\<not> infrequent p" "falsy (bibPlacename p)"
    | (f) "skipLabel p = None"
    by (auto simp: skipLabel_None)
  then show ?thesis
  proof cases
    case a
    with assms show ?thesis by (simp add: skipLabel_cases reconcile_def)
  next
    case b
    with assms show ?thesis by (simp add: skipLabel_cases reconcile_def)
  next
    case c
    with assms show ?thesis by (simp add: skipLabel_cases reconcile_def)
  next
    case d
    with assms show ?thesis by (simp add: skipLabel_cases reconcile_def)
  next
    case e
    with assms show ?thesis by (simp add: skipLabel_cases reconcile_def)
  next
    case f
    with assms show ?thesis by simp
  qed
qed

lemma skip_labels:
  "map snd skipRules =
     [''count-skipped-no-nz-control-number'', ''count-skipped-micoform'',
      ''count-skipped-electronic'', ''count-skipped-infrequent'', ''count-skipped-placename'']"
  by (simp add: skipRules_def)





lemma controlNumberStep_fst:
  "fst (foldl (controlNumberStep idx) acc xs) =
     (let ns = map (\<lambda>pair. drop 4 (snd pair))
                 (filter (\<lambda>pair. fst pair = ''a'' \<and> startsWith (snd pair) ''(Nz)'') xs)
      in if ns = [] then fst acc else Some (last ns))"
proof (induction xs arbitrary: acc)
  case Nil
  then show ?case by simp
next
  case (Cons x xs)
  show ?case
  proof (cases "fst x = ''a'' \<and> startsWith (snd x) ''(Nz)''")
    case True
    then have "fst (controlNumberStep idx acc x) = Some (drop 4 (snd x))"
      by (simp add: controlNumberStep_def Let_def)
    with True show ?thesis by (simp add: Cons.IH Let_def)
  next
    case False
    then have "controlNumberStep idx acc x = acc"
      by (auto simp add: controlNumberStep_def Let_def)
    with False show ?thesis by (auto simp add: Cons.IH Let_def)
  qed
qed

lemma marcControlNumber_last:
  "fst (controlNumbers idx r) = (if nzNumbers r = [] then None else Some (last (nzNumbers r)))"
  by (simp add: controlNumbers_def controlNumberStep_fst nzNumbers_def Let_def)



lemma counted_fields [simp]:
  "stats (counted st) = stats st"
  "papers (counted st) = papers st"
  "writes (counted st) = writes st"
  "marcFiles (counted st) = marcFiles st"
  "statCount (counted st) l = statCount st l"
  by (simp_all add: counted_def statCount_def)

lemma onData_newspaper:
  assumes "charAt (leader r) 6 = ''a''" and "charAt (leader r) 7 = ''s''"
    and "generalInfo r = Some info" and "continuingResourceType info = ''n''"
  shows "onData titleCleanup getNextNewspaperId idx placeData st r =
     (case reconcile titleCleanup getNextNewspaperId placeData
             (parseNewspaper titleCleanup idx r info) (counted st) of
        Inl e \<Rightarrow> Inl e
      | Inr res \<Rightarrow> Inr (writeMarcFile (parseNewspaper titleCleanup idx r info) res))"
  using assms by (simp add: onData_def counted_def Let_def)



section \<open>Verification: updating an existing record\<close>

lemma updateDates_result:
  assumes first: "firstYear nw = Some storedFirst" and final: "finalYear nw = Some storedFinal"
  shows "updateDates nw d1 d2 =
           Inr (nw\<lparr>firstYear := Some (reconciledDate storedFirst d1),
                   finalYear := Some (reconciledDate storedFinal d2),
                   isCurrent := Some (reconciledDate storedFinal d2 = ''9999'')\<rparr>,
                reconciledDate storedFirst d1 \<noteq> storedFirst
                \<or> reconciledDate storedFinal d2 \<noteq> storedFinal
                \<or> isCurrent nw \<noteq> Some (reconciledDate storedFinal d2 = ''9999''))"
proof -
  define newFirst where "newFirst = reconciledDate storedFirst d1"
  define newFinal where "newFinal = reconciledDate storedFinal d2"
  define nw' where "nw' = nw\<lparr>firstYear := Some newFirst, finalYear := Some newFinal,
                       isCurrent := Some (newFinal = ''9999'')\<rparr>"
  note newFirst_def = newFirst_def [unfolded reconciledDate_def]
  note newFinal_def = newFinal_def [unfolded reconciledDate_def]
  have "updateDates nw d1 d2 =
           Inr (nw', newFirst \<noteq> storedFirst \<or> newFinal \<noteq> storedFinal
                     \<or> isCurrent nw \<noteq> Some (newFinal = ''9999''))"
  proof -
  have keep: "nw\<lparr>firstYear := Some storedFirst\<rparr> = nw" "nw\<lparr>finalYear := Some storedFinal\<rparr> = nw"
    using first final by simp_all
  have keep_final: "r\<lparr>finalYear := finalYear r\<rparr> = r" for r :: newspaper by simp
  have keep_cur: "isCurrent r = Some b \<Longrightarrow> r\<lparr>isCurrent := Some b\<rparr> = r" for r :: newspaper and b
    by simp
  show ?thesis
  proof (cases "storedFirst \<noteq> d1 \<and> isNewDateMoreSpecific storedFirst d1")
    case cf: True
    show ?thesis
    proof (cases "storedFinal \<noteq> d2 \<and> isNewDateMoreSpecific storedFinal d2")
      case True
      with cf first final show ?thesis
        by (cases "isCurrent nw = Some (d2 = ''9999'')")
          (auto simp add: updateDates_def Let_def nw'_def newFirst_def newFinal_def)
    next
      case False
      then have nf: "newFinal = storedFinal" by (auto simp: newFinal_def)
      from cf have n1: "newFirst = d1" "d1 \<noteq> storedFirst" by (auto simp: newFirst_def)
      have fin: "finalYear (nw\<lparr>firstYear := Some d1\<rparr>) = Some storedFinal" using final by simp
      from False cf first fin show ?thesis
        unfolding nw'_def nf n1
        by (cases "isCurrent nw = Some (storedFinal = ''9999'')")
          (auto simp add: updateDates_def Let_def final)
    qed
  next
    case ncf: False
    then have n1: "newFirst = storedFirst" by (auto simp: newFirst_def)
    show ?thesis
    proof (cases "storedFinal \<noteq> d2 \<and> isNewDateMoreSpecific storedFinal d2")
      case True
      then have nf: "newFinal = d2" "d2 \<noteq> storedFinal" by (auto simp: newFinal_def)
      from True ncf first final show ?thesis
        unfolding nw'_def nf n1
        by (cases "isCurrent nw = Some (d2 = ''9999'')")
          (auto simp add: updateDates_def Let_def keep)
    next
      case False
      then have nf: "newFinal = storedFinal" by (auto simp: newFinal_def)
      from False ncf first final show ?thesis
        unfolding nw'_def nf n1
        by (cases "isCurrent nw = Some (storedFinal = ''9999'')")
          (auto simp add: updateDates_def Let_def keep)
    qed
  qed
  qed
  then show ?thesis
    by (simp add: nw'_def newFirst_def newFinal_def reconciledDate_def)
qed


lemma reconcile_existing:
  assumes pass: "skipLabel p = None"
    and resolved: "newspaperId p = Some nid" "nid \<noteq> []"
    and stored: "map_of (papers st) nid = Some nw"
    and upd: "updateDates nw (date1 (bibInfo p)) (date2 (bibInfo p)) = Inr (nw', updated)"
  shows "reconcile titleCleanup getNextNewspaperId placeData p st =
     Inr (if updated
          then writeNewspaper nid nw' (updateNote (marcControlNumber p))
                 (addStats ''count-existing-record-updated'' (addStats ''count-existing-record'' st))
          else addStats ''count-existing-record'' st,
          Some nid)"
proof -
  from pass have checks: "\<not> falsy (marcControlNumber p)" "\<not> isMicroformResource p"
    "\<not> isElectronicResource p" "\<not> infrequent p" "\<not> falsy (bibPlacename p)"
    by (simp_all add: skipLabel_None)
  from resolved have known: "\<not> falsy (newspaperId p)" "jsString (newspaperId p) = nid"
    by (simp_all add: falsy_def jsString_def)
  from stored have read: "readNewspaper (addStats ''count-existing-record'' st) nid = Inr nw"
    by (simp add: readNewspaper_def)
  show ?thesis
    by (simp add: reconcile_def checks known read upd Let_def) (simp add: resolved)
qed

text \<open>
  Claim C2. Let a parsed record pass all skip checks and let its control number resolve
  to an id under which the store holds a record with a first and a final year. Then the
  handler counts an existing record, and the record it goes on with has the first year
  replaced by \<open>date1\<close> exactly when \<open>date1\<close> differs from the stored first year and is
  more specific, the final year replaced by \<open>date2\<close> under the same rule, the flag
  \<open>isCurrent\<close> equal to whether that final year is \<open>9999\<close>, and all other fields as
  stored. When none of the three fields differs from the stored record, nothing is written
  and the store is unchanged; otherwise the record is written once, under the id, with
  the update note, and the counter of updated records goes up.
\<close>

theorem existing_record_update:
  assumes "skipLabel p = None"
    and "newspaperId p = Some nid" and "nid \<noteq> []"
    and "map_of (papers st) nid = Some nw"
    and "firstYear nw = Some storedFirst" and "finalYear nw = Some storedFinal"
  shows "\<exists>st' nw'.
      reconcile titleCleanup getNextNewspaperId placeData p st = Inr (st', Some nid)
    \<and> firstYear nw' =
        Some (if date1 (bibInfo p) \<noteq> storedFirst
                 \<and> isNewDateMoreSpecific storedFirst (date1 (bibInfo p))
              then date1 (bibInfo p) else storedFirst)
    \<and> finalYear nw' =
        Some (if date2 (bibInfo p) \<noteq> storedFinal
                 \<and> isNewDateMoreSpecific storedFinal (date2 (bibInfo p))
              then date2 (bibInfo p) else storedFinal)
    \<and> isCurrent nw' = Some (finalYear nw' = Some ''9999'')
    \<and> nw' = nw\<lparr>firstYear := firstYear nw', finalYear := finalYear nw', isCurrent := isCurrent nw'\<rparr>
    \<and> statCount st' ''count-existing-record'' = Suc (statCount st ''count-existing-record'')
    \<and> (if firstYear nw' = firstYear nw \<and> finalYear nw' = finalYear nw \<and> isCurrent nw' = isCurrent nw
        then writes st' = writes st \<and> papers st' = papers st
           \<and> statCount st' ''count-existing-record-updated'' = statCount st ''count-existing-record-updated''
        else writes st' = writes st @ [(nid, nw', updateNote (marcControlNumber p))]
           \<and> papers st' = AList.update nid nw' (papers st)
           \<and> statCount st' ''count-existing-record-updated''
               = Suc (statCount st ''count-existing-record-updated''))"
proof -
  let ?d1 = "date1 (bibInfo p)" and ?d2 = "date2 (bibInfo p)"
  let ?nw' = "nw\<lparr>firstYear := Some (reconciledDate storedFirst ?d1),
                  finalYear := Some (reconciledDate storedFinal ?d2),
                  isCurrent := Some (reconciledDate storedFinal ?d2 = ''9999'')\<rparr>"
  let ?updated = "reconciledDate storedFirst ?d1 \<noteq> storedFirst
                \<or> reconciledDate storedFinal ?d2 \<noteq> storedFinal
                \<or> isCurrent nw \<noteq> Some (reconciledDate storedFinal ?d2 = ''9999'')"
  let ?st' = "if ?updated
          then writeNewspaper nid ?nw' (updateNote (marcControlNumber p))
                 (addStats ''count-existing-record-updated'' (addStats ''count-existing-record'' st))
          else addStats ''count-existing-record'' st"
  have run: "reconcile titleCleanup getNextNewspaperId placeData p st = Inr (?st', Some nid)"
    by (rule reconcile_existing [OF assms(1-4) updateDates_result [OF assms(5,6)]])
  have first: "firstYear ?nw' =
        Some (if ?d1 \<noteq> storedFirst \<and> isNewDateMoreSpecific storedFirst ?d1 then ?d1 else storedFirst)"
    by (simp add: reconciledDate_def)
  have final: "finalYear ?nw' =
        Some (if ?d2 \<noteq> storedFinal \<and> isNewDateMoreSpecific storedFinal ?d2 then ?d2 else storedFinal)"
    by (simp add: reconciledDate_def)
  have current: "isCurrent ?nw' = Some (finalYear ?nw' = Some ''9999'')"
    by simp
  have frame: "?nw' = nw\<lparr>firstYear := firstYear ?nw', finalYear := finalYear ?nw',
                          isCurrent := isCurrent ?nw'\<rparr>"
    by simp
  have counted: "statCount ?st' ''count-existing-record'' = Suc (statCount st ''count-existing-record'')"
    by (simp add: statCount_addStats)
  have changed: "(firstYear ?nw' = firstYear nw \<and> finalYear ?nw' = finalYear nw
                  \<and> isCurrent ?nw' = isCurrent nw) \<longleftrightarrow> \<not> ?updated"
    using assms(5,6) by auto
  have effect: "if firstYear ?nw' = firstYear nw \<and> finalYear ?nw' = finalYear nw
                   \<and> isCurrent ?nw' = isCurrent nw
        then writes ?st' = writes st \<and> papers ?st' = papers st
           \<and> statCount ?st' ''count-existing-record-updated'' = statCount st ''count-existing-record-updated''
        else writes ?st' = writes st @ [(nid, ?nw', updateNote (marcControlNumber p))]
           \<and> papers ?st' = AList.update nid ?nw' (papers st)
           \<and> statCount ?st' ''count-existing-record-updated''
               = Suc (statCount st ''count-existing-record-updated'')"
    unfolding changed by (simp add: statCount_addStats)
  from run first final current frame counted effect show ?thesis
    by (intro exI [of _ ?st'] exI [of _ ?nw'] conjI)
qed


lemmas marc_eval =
  onData_def parseNewspaper_def reconcile_def writeMarcFile_def generalInfo_def readGeneralInfo_def
  controlNumbers_def controlNumberStep_def formatFlags_def mediumStep_def extentStep_def
  frequencyOf_def frequencyStep_def placenameOf_def titleOf_def subfields_def
  placeCleanUp_def placeBeforeCleanup_def excludedPlace_def truncatePlace_def
  charAt_def substring_def startsWith_def isLineTerminator_def trim_def isWhiteSpace_def
  stripTrailingPunctuation_def falsy_def jsString_def sampleRecord_def sampleNewspaper_def
  addStats_def writeNewspaper_def readNewspaper_def newRecord_def updateDates_def
  initialState_def longerId_def createNote_def updateNote_def Let_def
  storeAfter_def writesAfter_def readMarcFile_def scanRecords_def scanRecord_def
  duplicateMessage_def isNewDateMoreSpecific_def endsWith_def

theorem existing_record_update_witness:
  "skipLabel (parseNewspaper id [''8000996'' \<mapsto> ''7'']
      (sampleRecord ''850101d18651999nz dr n'' ''(Nz)8000996'' ''Wellington, N.Z.'' ''Daily'')
      (readGeneralInfo ''850101d18651999nz dr n'')) = None
   \<and> (\<exists>st'.
        reconcile id longerId Map.empty
          (parseNewspaper id [''8000996'' \<mapsto> ''7'']
            (sampleRecord ''850101d18651999nz dr n'' ''(Nz)8000996'' ''Wellington, N.Z.'' ''Daily'')
            (readGeneralInfo ''850101d18651999nz dr n''))
          (initialState [(''7'', sampleNewspaper ''7'' ''8000996'' ''18uu'' ''uuuu'' False)])
          = Inr (st', Some ''7'')
      \<and> writes st' = [(''7'', sampleNewspaper ''7'' ''8000996'' ''1865'' ''1999'' False,
                       updateNote (Some ''8000996''))])"
proof -
  let ?p = "parseNewspaper id [''8000996'' \<mapsto> ''7'']
      (sampleRecord ''850101d18651999nz dr n'' ''(Nz)8000996'' ''Wellington, N.Z.'' ''Daily'')
      (readGeneralInfo ''850101d18651999nz dr n'')"
  let ?nw = "sampleNewspaper ''7'' ''8000996'' ''18uu'' ''uuuu'' False"
  let ?st = "initialState [(''7'', ?nw)]"
  have fields: "marcControlNumber ?p = Some ''8000996''" "newspaperId ?p = Some ''7''"
    "date1 (bibInfo ?p) = ''1865''" "date2 (bibInfo ?p) = ''1999''"
    by (simp_all add: marc_eval)
  have pass: "skipLabel ?p = None"
    by (simp add: skipLabel_cases marc_eval)
  have stored: "map_of (papers ?st) ''7'' = Some ?nw" "firstYear ?nw = Some ''18uu''"
    "finalYear ?nw = Some ''uuuu''" "isCurrent ?nw = Some False" "writes ?st = []"
    by (simp_all add: initialState_def sampleNewspaper_def)
  have specific: "isNewDateMoreSpecific ''18uu'' ''1865''" "isNewDateMoreSpecific ''uuuu'' ''1999''"
    by (simp_all add: isNewDateMoreSpecific_def endsWith_def)
  have nonempty: "''7'' \<noteq> ([] :: string)" by simp
  from existing_record_update [OF pass fields(2) nonempty stored(1,2,3), of id longerId Map.empty]
  obtain st' nw' where res: "reconcile id longerId Map.empty ?p ?st = Inr (st', Some ''7'')"
    and first: "firstYear nw' = Some ''1865''" and final: "finalYear nw' = Some ''1999''"
    and current: "isCurrent nw' = Some (finalYear nw' = Some ''9999'')"
    and frame: "nw' = ?nw\<lparr>firstYear := firstYear nw', finalYear := finalYear nw',
                           isCurrent := isCurrent nw'\<rparr>"
    and effect: "if firstYear nw' = firstYear ?nw \<and> finalYear nw' = finalYear ?nw
                    \<and> isCurrent nw' = isCurrent ?nw
        then writes st' = writes ?st \<and> papers st' = papers ?st
           \<and> statCount st' ''count-existing-record-updated'' = statCount ?st ''count-existing-record-updated''
        else writes st' = writes ?st @ [(''7'', nw', updateNote (marcControlNumber ?p))]
           \<and> papers st' = AList.update ''7'' nw' (papers ?st)
           \<and> statCount st' ''count-existing-record-updated''
               = Suc (statCount ?st ''count-existing-record-updated'')"
    unfolding fields by (auto simp add: specific)
  from frame first final current have nw': "nw' = sampleNewspaper ''7'' ''8000996'' ''1865'' ''1999'' False"
    by (simp add: sampleNewspaper_def)
  from effect have "writes st' = [(''7'', nw', updateNote (Some ''8000996''))]"
    unfolding first stored fields by simp
  with res pass nw' show ?thesis by blast
qed

section \<open>Verification: adding a record\<close>

lemma reconcile_new:
  assumes pass: "skipLabel p = None" and unknown: "falsy (newspaperId p)"
  shows "reconcile titleCleanup getNextNewspaperId placeData p st =
     Inr (writeNewspaper (getNextNewspaperId (papers st))
            (newRecord titleCleanup placeData (getNextNewspaperId (papers st)) p)
            (createNote (marcControlNumber p))
            (if stringLess ''130402'' (dateOnFile (bibInfo p))
             then addStats ''count-new-record-since-last-load'' (addStats ''count-new-record'' st)
             else addStats ''count-new-record'' st),
          Some (getNextNewspaperId (papers st)))"
proof -
  from pass have checks: "\<not> falsy (marcControlNumber p)" "\<not> isMicroformResource p"
    "\<not> isElectronicResource p" "\<not> infrequent p" "\<not> falsy (bibPlacename p)"
    by (simp_all add: skipLabel_None)
  show ?thesis
    by (simp add: reconcile_def checks unknown Let_def)
qed

text \<open>
  Claim C3 says that a created record has \<open>isCurrent\<close> equal to whether \<open>date2\<close> is
  \<open>9999\<close>. The create branch stores the variable \<open>isCurrentlyPublished\<close> as it was set
  after reading field 008, from the type of date: \<open>typeOfDate == "c"\<close>. For a record
  whose 008 field has type of date \<open>c\<close> and a final year 1999, the created record is
  current although \<open>date2\<close> is not \<open>9999\<close>.
\<close>

theorem new_record_is_current_counterexample:
  "storeAfter (onData id longerId Map.empty Map.empty (initialState [])
      (sampleRecord ''850101c18651999nz dr n'' ''(Nz)8000996'' ''Wellington, N.Z.'' ''Daily''))
   = Some [(''1'', \<lparr>ident = Some ''1'', title = Some ''Evening post'', genre = Some ''Unknown'',
       idMarcControlNumber = Some ''8000996'', isCurrent = Some True,
       firstYear = Some ''1865'', finalYear = Some ''1999'', frequency = Some ''Daily'',
       placename = Some ''Wellington'', placecode = Some ''unknown'',
       district = Some ''Unknown District'', region = Some ''Unknown Region''\<rparr>)]
   \<and> date2 (readGeneralInfo ''850101c18651999nz dr n'') = ''1999''
   \<and> typeOfDate (readGeneralInfo ''850101c18651999nz dr n'') = ''c''"
  by (simp add: marc_eval)

text \<open>
  Claim C3 as amended. For every parsed record that passes all skip checks and whose
  control numbers resolve to no existing id, the handler writes one new record under the
  next id: its genre is \<open>Unknown\<close>, its first and final year are \<open>date1\<close> and
  \<open>date2\<close>, its \<open>isCurrent\<close> is whether the type of date of field 008 is \<open>c\<close> (which
  is whether \<open>date2\<close> is \<open>9999\<close> on a record where the two agree), and its placecode,
  district and region are those of the place table's entry for the cleaned place name, or
  \<open>unknown\<close>, \<open>Unknown District\<close> and \<open>Unknown Region\<close> when the table has no such
  entry.
\<close>

theorem new_record_fields:
  assumes "skipLabel p = None" and "falsy (newspaperId p)"
  shows "\<exists>st' new name.
      reconcile titleCleanup getNextNewspaperId placeData p st
        = Inr (st', Some (getNextNewspaperId (papers st)))
    \<and> writes st' = writes st @ [(getNextNewspaperId (papers st), new, createNote (marcControlNumber p))]
    \<and> papers st' = AList.update (getNextNewspaperId (papers st)) new (papers st)
    \<and> statCount st' ''count-new-record'' = Suc (statCount st ''count-new-record'')
    \<and> genre new = Some ''Unknown''
    \<and> firstYear new = Some (date1 (bibInfo p)) \<and> finalYear new = Some (date2 (bibInfo p))
    \<and> isCurrent new = Some (typeOfDate (bibInfo p) = ''c'')
    \<and> ((typeOfDate (bibInfo p) = ''c'' \<longleftrightarrow> date2 (bibInfo p) = ''9999'')
         \<longrightarrow> isCurrent new = Some (date2 (bibInfo p) = ''9999''))
    \<and> bibPlacename p = Some name \<and> placename new = Some name
    \<and> (case placeData name of
          Some known \<Rightarrow>
            placecode new = fst known \<and> district new = fst (snd known)
            \<and> region new = snd (snd known)
        | None \<Rightarrow>
            placecode new = Some ''unknown'' \<and> district new = Some ''Unknown District''
            \<and> region new = Some ''Unknown Region'')"
proof -
  let ?nid = "getNextNewspaperId (papers st)"
  let ?new = "newRecord titleCleanup placeData ?nid p"
  let ?st' = "writeNewspaper ?nid ?new (createNote (marcControlNumber p))
            (if stringLess ''130402'' (dateOnFile (bibInfo p))
             then addStats ''count-new-record-since-last-load'' (addStats ''count-new-record'' st)
             else addStats ''count-new-record'' st)"
  from assms(1) have "\<not> falsy (bibPlacename p)" by (simp add: skipLabel_None)
  then obtain name where name: "bibPlacename p = Some name"
    by (auto simp: falsy_def)
  have run: "reconcile titleCleanup getNextNewspaperId placeData p st = Inr (?st', Some ?nid)"
    by (rule reconcile_new [OF assms])
  have effect: "writes ?st' = writes st @ [(?nid, ?new, createNote (marcControlNumber p))]"
    "papers ?st' = AList.update ?nid ?new (papers st)"
    "statCount ?st' ''count-new-record'' = Suc (statCount st ''count-new-record'')"
    by (simp_all add: statCount_addStats)
  have fields: "genre ?new = Some ''Unknown''"
    "firstYear ?new = Some (date1 (bibInfo p))" "finalYear ?new = Some (date2 (bibInfo p))"
    "isCurrent ?new = Some (typeOfDate (bibInfo p) = ''c'')"
    "placename ?new = Some name"
    by (simp_all add: newRecord_def Let_def name)
  have agree: "(typeOfDate (bibInfo p) = ''c'' \<longleftrightarrow> date2 (bibInfo p) = ''9999'')
         \<longrightarrow> isCurrent ?new = Some (date2 (bibInfo p) = ''9999'')"
    by (simp add: fields)
  have place: "case placeData name of
          Some known \<Rightarrow>
            placecode ?new = fst known \<and> district ?new = fst (snd known)
            \<and> region ?new = snd (snd known)
        | None \<Rightarrow>
            placecode ?new = Some ''unknown'' \<and> district ?new = Some ''Unknown District''
            \<and> region ?new = Some ''Unknown Region''"
    by (simp add: newRecord_def Let_def name jsString_def split: option.splits)
  from run effect fields agree place name show ?thesis
    by (intro exI [of _ ?st'] exI [of _ ?new] exI [of _ name] conjI)
qed

theorem new_record_fields_witness:
  "skipLabel (parseNewspaper id Map.empty
      (sampleRecord ''850101c18659999nz dr n'' ''(Nz)8000996'' ''Wellington, N.Z.'' ''Daily'')
      (readGeneralInfo ''850101c18659999nz dr n'')) = None
   \<and> (\<exists>st' new.
        reconcile id longerId [''Wellington'' \<mapsto> (Some ''09-01'', Some ''Wellington City'', Some ''Wellington'')]
          (parseNewspaper id Map.empty
            (sampleRecord ''850101c18659999nz dr n'' ''(Nz)8000996'' ''Wellington, N.Z.'' ''Daily'')
            (readGeneralInfo ''850101c18659999nz dr n''))
          (initialState []) = Inr (st', Some ''1'')
      \<and> writes st' = [(''1'', new, createNote (Some ''8000996''))]
      \<and> genre new = Some ''Unknown'' \<and> isCurrent new = Some True
      \<and> placecode new = Some ''09-01'' \<and> district new = Some ''Wellington City''
      \<and> region new = Some ''Wellington'')"
proof -
  let ?p = "parseNewspaper id Map.empty
      (sampleRecord ''850101c18659999nz dr n'' ''(Nz)8000996'' ''Wellington, N.Z.'' ''Daily'')
      (readGeneralInfo ''850101c18659999nz dr n'')"
  let ?places = "[''Wellington'' \<mapsto> (Some ''09-01'', Some ''Wellington City'', Some ''Wellington'')]"
  have fields: "marcControlNumber ?p = Some ''8000996''" "newspaperId ?p = None"
    "typeOfDate (bibInfo ?p) = ''c''" "bibPlacename ?p = Some ''Wellington''"
    by (simp_all add: marc_eval)
  have pass: "skipLabel ?p = None"
    by (simp add: skipLabel_cases marc_eval)
  have unknown: "falsy (newspaperId ?p)"
    by (simp add: fields falsy_def)
  have start: "longerId (papers (initialState [])) = ''1''" "writes (initialState []) = []"
    by (simp_all add: initialState_def longerId_def)
  from new_record_fields [OF pass unknown, of id longerId ?places "initialState []"]
  obtain st' new where "reconcile id longerId ?places ?p (initialState []) = Inr (st', Some ''1'')"
    "writes st' = [(''1'', new, createNote (Some ''8000996''))]"
    "genre new = Some ''Unknown''" "isCurrent new = Some True"
    "placecode new = Some ''09-01''" "district new = Some ''Wellington City''"
    "region new = Some ''Wellington''"
    unfolding fields start by auto
  with pass show ?thesis by blast
qed

section \<open>Verification: control numbers claimed twice\<close>

text \<open>
  Claim C5 says that at every point of a run at most one record claims a control number.
  The scan of the existing records enforces this for the store it starts from, but the
  create branch neither looks at the records created earlier in the run nor registers the
  number it has just given away (the source marks the missing check with a TODO). Two
  records of the MARC file with the same unseen control number are both created, and the
  store they leave behind is one that the scan of the next run rejects as a duplicate.
\<close>

theorem created_records_share_control_number:
  "storeAfter (readMarcFile id longerId []
      [sampleRecord ''850101c18659999nz dr n'' ''(Nz)8000996'' ''Wellington, N.Z.'' ''Daily'',
       sampleRecord ''850101c18659999nz dr n'' ''(Nz)8000996'' ''Wellington, N.Z.'' ''Daily''])
   = Some [(''1'', \<lparr>ident = Some ''1'', title = Some ''Evening post'', genre = Some ''Unknown'',
       idMarcControlNumber = Some ''8000996'', isCurrent = Some True,
       firstYear = Some ''1865'', finalYear = Some ''9999'', frequency = Some ''Daily'',
       placename = Some ''Wellington'', placecode = Some ''unknown'',
       district = Some ''Unknown District'', region = Some ''Unknown Region''\<rparr>),
     (''11'', \<lparr>ident = Some ''11'', title = Some ''Evening post'', genre = Some ''Unknown'',
       idMarcControlNumber = Some ''8000996'', isCurrent = Some True,
       firstYear = Some ''1865'', finalYear = Some ''9999'', frequency = Some ''Daily'',
       placename = Some ''Wellington'', placecode = Some ''unknown'',
       district = Some ''Unknown District'', region = Some ''Unknown Region''\<rparr>)]
   \<and> scanRecords
     [(''1'', \<lparr>ident = Some ''1'', title = Some ''Evening post'', genre = Some ''Unknown'',
       idMarcControlNumber = Some ''8000996'', isCurrent = Some True,
       firstYear = Some ''1865'', finalYear = Some ''9999'', frequency = Some ''Daily'',
       placename = Some ''Wellington'', placecode = Some ''unknown'',
       district = Some ''Unknown District'', region = Some ''Unknown Region''\<rparr>),
     (''11'', \<lparr>ident = Some ''11'', title = Some ''Evening post'', genre = Some ''Unknown'',
       idMarcControlNumber = Some ''8000996'', isCurrent = Some True,
       firstYear = Some ''1865'', finalYear = Some ''9999'', frequency = Some ''Daily'',
       placename = Some ''Wellington'', placecode = Some ''unknown'',
       district = Some ''Unknown District'', region = Some ''Unknown Region''\<rparr>)]
   = Inl (Thrown (''Error: Duplicate MARC number '' @ [CHR 0x27] @ ''8000996'' @ [CHR 0x27]
        @ '': 11 (Evening post / Unknown) matches 1 (Evening post)''))"
  by (simp add: marc_eval)

section \<open>Verification: running the tool twice\<close>

text \<open>
  Claim C6 says that a second run over the same MARC file and the store of the first run
  updates and creates nothing. Two runs of the model show otherwise. In the first, the
  file holds one record with type of date \<open>c\<close> and final year 1999: the first run
  creates it as current, the second finds it, recomputes \<open>isCurrent\<close> from the final
  year and writes an update. In the second, two records of the file carry the control
  number of one stored newspaper and first years \<open>186u\<close> and \<open>187u\<close>: each is more
  specific than the other by the decision table, so every run overwrites the first year
  twice.
\<close>

theorem second_run_updates_counterexample:
  "map_option (map fst)
     (writesAfter (readMarcFile id longerId
        [(''1'', \<lparr>ident = Some ''1'', title = Some ''Evening post'', genre = Some ''Unknown'',
           idMarcControlNumber = Some ''8000996'', isCurrent = Some True,
           firstYear = Some ''1865'', finalYear = Some ''1999'', frequency = Some ''Daily'',
           placename = Some ''Wellington'', placecode = Some ''unknown'',
           district = Some ''Unknown District'', region = Some ''Unknown Region''\<rparr>)]
        [sampleRecord ''850101c18651999nz dr n'' ''(Nz)8000996'' ''Wellington, N.Z.'' ''Daily'']))
     = Some [''1'']
   \<and> storeAfter (readMarcFile id longerId []
        [sampleRecord ''850101c18651999nz dr n'' ''(Nz)8000996'' ''Wellington, N.Z.'' ''Daily''])
     = Some [(''1'', \<lparr>ident = Some ''1'', title = Some ''Evening post'', genre = Some ''Unknown'',
           idMarcControlNumber = Some ''8000996'', isCurrent = Some True,
           firstYear = Some ''1865'', finalYear = Some ''1999'', frequency = Some ''Daily'',
           placename = Some ''Wellington'', placecode = Some ''unknown'',
           district = Some ''Unknown District'', region = Some ''Unknown Region''\<rparr>)]
   \<and> storeAfter (readMarcFile id longerId
        [(''7'', sampleNewspaper ''7'' ''8000996'' ''18uu'' ''9999'' True)]
        [sampleRecord ''850101c186u9999nz dr n'' ''(Nz)8000996'' ''Wellington, N.Z.'' ''Daily'',
         sampleRecord ''850101c187u9999nz dr n'' ''(Nz)8000996'' ''Wellington, N.Z.'' ''Daily''])
     = Some [(''7'', sampleNewspaper ''7'' ''8000996'' ''187u'' ''9999'' True)]
   \<and> map_option (map fst)
     (writesAfter (readMarcFile id longerId
        [(''7'', sampleNewspaper ''7'' ''8000996'' ''187u'' ''9999'' True)]
        [sampleRecord ''850101c186u9999nz dr n'' ''(Nz)8000996'' ''Wellington, N.Z.'' ''Daily'',
         sampleRecord ''850101c187u9999nz dr n'' ''(Nz)8000996'' ''Wellington, N.Z.'' ''Daily'']))
     = Some [''7'', ''7'']"
  by (simp add: marc_eval)

subsection \<open>Loops that may throw\<close>

lemma foldE_append:
  "foldE f s (xs @ ys) = (case foldE f s xs of Inl e \<Rightarrow> Inl e | Inr s' \<Rightarrow> foldE f s' ys)"
  by (induction xs arbitrary: s) (auto split: sum.splits)

subsection \<open>The index that the scan builds\<close>

lemma scanRecord_unclaimed:
  assumes "idMarcControlNumber (snd entry) = None \<or> idMarcControlNumber (snd entry) = Some []"
  shows "\<exists>pd'. scanRecord R (idx, pd) entry = Inr (idx, pd')"
  using assms by (auto simp add: scanRecord_def Let_def)

lemma scanRecord_claimed_new:
  assumes "idMarcControlNumber (snd entry) = Some c" and "c \<noteq> []" and "idx c = None"
  shows "\<exists>pd'. scanRecord R (idx, pd) entry = Inr (idx(c \<mapsto> fst entry), pd')"
  using assms by (simp add: scanRecord_def Let_def falsy_def)

lemma scanRecord_claimed_twice:
  assumes "idMarcControlNumber (snd entry) = Some c" and "c \<noteq> []"
    and "idx c = Some i" and "i \<noteq> []"
  shows "\<exists>e. scanRecord R (idx, pd) entry = Inl e"
  using assms by (simp add: scanRecord_def Let_def falsy_def split: option.splits)

lemma claimedPairs_ids: "(c, i) \<in> set (claimedPairs S) \<Longrightarrow> i \<in> fst ` set S"
  by (induction S) (auto split: option.splits if_splits)

lemma claimedPairs_iff:
  "(c, i) \<in> set (claimedPairs S) \<longleftrightarrow>
     c \<noteq> [] \<and> (\<exists>n. (i, n) \<in> set S \<and> idMarcControlNumber n = Some c)"
  by (induction S) (auto split: option.splits if_splits)

lemma claimedPairs_append: "claimedPairs (S @ T) = claimedPairs S @ claimedPairs T"
  by (induction S) (auto split: option.splits)

lemma index_add_claim:
  assumes "c \<notin> fst ` set pairs"
  shows "idx(c \<mapsto> i) ++ map_of pairs = idx ++ map_of ((c, i) # pairs)"
proof -
  from assms have "c \<notin> dom (map_of pairs)" by (simp add: dom_map_of_conv_image_fst)
  then have "idx(c \<mapsto> i) ++ map_of pairs = (idx ++ map_of pairs)(c \<mapsto> i)"
    by (rule map_add_upd_left)
  also have "\<dots> = idx ++ map_of ((c, i) # pairs)" by simp
  finally show ?thesis .
qed

lemma scan_forward:
  assumes "foldE (scanRecord R) (idxA, pdA) S = Inr (idx, pd)"
    and "[] \<notin> fst ` set S" and "\<forall>c i. idxA c = Some i \<longrightarrow> i \<noteq> []"
  shows "distinct (map fst (claimedPairs S)) \<and> fst ` set (claimedPairs S) \<inter> dom idxA = {}
         \<and> idx = idxA ++ map_of (claimedPairs S)"
  using assms
proof (induction S arbitrary: idxA pdA)
  case Nil
  then show ?case by simp
next
  case (Cons entry S)
  show ?case
  proof (cases "idMarcControlNumber (snd entry) = None \<or> idMarcControlNumber (snd entry) = Some []")
    case True
    from scanRecord_unclaimed [OF True, of R idxA pdA] obtain pd'
      where step: "scanRecord R (idxA, pdA) entry = Inr (idxA, pd')" by blast
    with Cons.prems(1) have rest: "foldE (scanRecord R) (idxA, pd') S = Inr (idx, pd)" by simp
    from Cons.prems(2) have ids: "[] \<notin> fst ` set S" by auto
    from True have pairs: "claimedPairs (entry # S) = claimedPairs S" by auto
    from Cons.IH [OF rest ids Cons.prems(3)] show ?thesis unfolding pairs .
  next
    case False
    then obtain c where c: "idMarcControlNumber (snd entry) = Some c" "c \<noteq> []" by auto
    from Cons.prems(2) have id: "fst entry \<noteq> []" by auto
    show ?thesis
    proof (cases "idxA c")
      case None
      from scanRecord_claimed_new [where idx = idxA and R = R and pd = pdA, OF c None] obtain pd'
        where step: "scanRecord R (idxA, pdA) entry = Inr (idxA(c \<mapsto> fst entry), pd')" by blast
      with Cons.prems(1) have rest:
        "foldE (scanRecord R) (idxA(c \<mapsto> fst entry), pd') S = Inr (idx, pd)" by simp
      from Cons.prems(2) have ids: "[] \<notin> fst ` set S" by auto
      from Cons.prems(3) id have truthy: "\<forall>c' i. (idxA(c \<mapsto> fst entry)) c' = Some i \<longrightarrow> i \<noteq> []"
        by auto
      note ih = Cons.IH [OF rest ids truthy]
      from ih have d: "distinct (map fst (claimedPairs S))" by (rule conjunct1)
      from ih have disj: "fst ` set (claimedPairs S) \<inter> dom (idxA(c \<mapsto> fst entry)) = {}"
        by (rule conjunct2 [THEN conjunct1])
      from ih have idx: "idx = idxA(c \<mapsto> fst entry) ++ map_of (claimedPairs S)"
        by (rule conjunct2 [THEN conjunct2])
      from disj have fresh: "c \<notin> fst ` set (claimedPairs S)" by auto
      from disj have disj': "fst ` set (claimedPairs S) \<inter> dom idxA = {}" by auto
      have pairs: "claimedPairs (entry # S) = (c, fst entry) # claimedPairs S"
        using c by simp
      from d fresh have d': "distinct (map fst ((c, fst entry) # claimedPairs S))" by simp
      from disj' None have disj'': "fst ` set ((c, fst entry) # claimedPairs S) \<inter> dom idxA = {}"
        by auto
      from idx have idx': "idx = idxA ++ map_of ((c, fst entry) # claimedPairs S)"
        by (simp only: index_add_claim [OF fresh])
      from d' disj'' idx' show ?thesis unfolding pairs by (intro conjI)

    next
      case (Some i)
      with Cons.prems(3) have "i \<noteq> []" by blast
      from scanRecord_claimed_twice [where idx = idxA and R = R and pd = pdA, OF c Some this] Cons.prems(1)
      show ?thesis by auto
    qed
  qed
qed

lemma scan_backward:
  assumes "distinct (map fst (claimedPairs S))"
    and "fst ` set (claimedPairs S) \<inter> dom idxA = {}"
  shows "\<exists>pd. foldE (scanRecord R) (idxA, pdA) S = Inr (idxA ++ map_of (claimedPairs S), pd)"
  using assms
proof (induction S arbitrary: idxA pdA)
  case Nil
  then show ?case by simp
next
  case (Cons entry S)
  show ?case
  proof (cases "idMarcControlNumber (snd entry) = None \<or> idMarcControlNumber (snd entry) = Some []")
    case True
    from scanRecord_unclaimed [OF True, of R idxA pdA] obtain pd'
      where step: "scanRecord R (idxA, pdA) entry = Inr (idxA, pd')" by blast
    from True have pairs: "claimedPairs (entry # S) = claimedPairs S" by auto
    from Cons.prems have "distinct (map fst (claimedPairs S))"
      "fst ` set (claimedPairs S) \<inter> dom idxA = {}"
      unfolding pairs by auto
    from Cons.IH [OF this, of pd'] step show ?thesis unfolding pairs by simp
  next
    case False
    then obtain c where c: "idMarcControlNumber (snd entry) = Some c" "c \<noteq> []" by auto
    have pairs: "claimedPairs (entry # S) = (c, fst entry) # claimedPairs S"
      using c by simp
    from Cons.prems(2) have none: "idxA c = None" unfolding pairs by auto
    from scanRecord_claimed_new [where idx = idxA and R = R and pd = pdA, OF c none] obtain pd'
      where step: "scanRecord R (idxA, pdA) entry = Inr (idxA(c \<mapsto> fst entry), pd')" by blast
    from Cons.prems have d: "distinct (map fst (claimedPairs S))"
      and fresh: "c \<notin> fst ` set (claimedPairs S)"
      and disj: "fst ` set (claimedPairs S) \<inter> dom (idxA(c \<mapsto> fst entry)) = {}"
      unfolding pairs by auto
    from Cons.IH [OF d disj, of pd'] obtain pd''
      where "foldE (scanRecord R) (idxA(c \<mapsto> fst entry), pd') S
             = Inr (idxA(c \<mapsto> fst entry) ++ map_of (claimedPairs S), pd'')" by blast
    then have "foldE (scanRecord R) (idxA(c \<mapsto> fst entry), pd') S
             = Inr (idxA ++ map_of ((c, fst entry) # claimedPairs S), pd'')"
      by (simp only: index_add_claim [OF fresh])
    moreover from step have "foldE (scanRecord R) (idxA, pdA) (entry # S)
        = foldE (scanRecord R) (idxA(c \<mapsto> fst entry), pd') S" by simp
    ultimately have "foldE (scanRecord R) (idxA, pdA) (entry # S)
        = Inr (idxA ++ map_of ((c, fst entry) # claimedPairs S), pd'')" by (simp only:)
    then show ?thesis unfolding pairs by blast

  qed
qed

subsection \<open>Resolving the control numbers of a record\<close>

lemma controlNumberStep_resolve:
  "snd (snd (foldl (controlNumberStep idx) acc xs)) =
     foldl (\<lambda>found c. if \<not> falsy (idx c) then idx c else found) (snd (snd acc))
       (map (\<lambda>pair. drop 4 (snd pair))
          (filter (\<lambda>pair. fst pair = ''a'' \<and> startsWith (snd pair) ''(Nz)'') xs))"
proof (induction xs arbitrary: acc)
  case Nil
  then show ?case by simp
next
  case (Cons x xs)
  show ?case
  proof (cases "fst x = ''a'' \<and> startsWith (snd x) ''(Nz)''")
    case True
    then have "snd (snd (controlNumberStep idx acc x)) =
        (if \<not> falsy (idx (drop 4 (snd x))) then idx (drop 4 (snd x)) else snd (snd acc))"
      by (simp add: controlNumberStep_def Let_def)
    with True show ?thesis by (simp add: Cons.IH)
  next
    case False
    then have "controlNumberStep idx acc x = acc"
      by (auto simp add: controlNumberStep_def Let_def)
    with False show ?thesis by (auto simp add: Cons.IH)
  qed
qed

lemma newspaperId_resolve:
  "snd (snd (controlNumbers idx r)) = resolve idx (nzNumbers r)"
  by (simp add: controlNumbers_def controlNumberStep_resolve resolve_def nzNumbers_def)

lemma resolve_snoc:
  "resolve idx (ns @ [c]) = (if \<not> falsy (idx c) then idx c else resolve idx ns)"
  by (simp add: resolve_def)

lemma resolve_cong:
  "\<forall>c \<in> set ns. idx c = idx' c \<Longrightarrow> resolve idx ns = resolve idx' ns"
proof (induction ns rule: rev_induct)
  case Nil
  then show ?case by (simp add: resolve_def)
next
  case (snoc c ns)
  then have "resolve idx ns = resolve idx' ns" "idx c = idx' c" by simp_all
  then show ?case by (simp add: resolve_snoc)
qed

lemma resolve_falsy:
  "falsy (resolve idx ns) \<longleftrightarrow> (\<forall>c \<in> set ns. falsy (idx c))"
proof (induction ns rule: rev_induct)
  case Nil
  then show ?case by (simp add: resolve_def falsy_def)
next
  case (snoc c ns)
  then show ?case by (auto simp add: resolve_snoc)
qed

lemma resolve_found:
  "resolve idx ns = Some i \<Longrightarrow> i \<noteq> [] \<Longrightarrow> \<exists>c \<in> set ns. idx c = Some i"
proof (induction ns rule: rev_induct)
  case Nil
  then show ?case by (simp add: resolve_def)
next
  case (snoc c ns)
  then show ?case by (auto simp add: resolve_snoc split: if_splits)
qed

lemma resolve_truthy:
  "resolve idx ns = None \<or> (\<exists>i. resolve idx ns = Some i \<and> i \<noteq> [])"
proof (induction ns rule: rev_induct)
  case Nil
  then show ?case by (simp add: resolve_def)
next
  case (snoc c ns)
  then show ?case by (auto simp add: resolve_snoc falsy_def)
qed

lemma resolve_last:
  assumes "ns \<noteq> []" and "idx (last ns) = Some i" and "i \<noteq> []"
  shows "resolve idx ns = Some i"
proof -
  from assms(1) obtain ms where "ns = ms @ [last ns]"
    by (metis append_butlast_last_id)
  then have "resolve idx ns = resolve idx (ms @ [last ns])" by simp
  also have "\<dots> = Some i" using assms(2,3) by (simp add: resolve_snoc falsy_def)
  finally show ?thesis .
qed

subsection \<open>The handler on one record\<close>

lemma skipLabel_index:
  "skipLabel (parseNewspaper titleCleanup idx r info)
   = skipLabel (parseNewspaper titleCleanup idx' r info)"
  by (simp add: skipLabel_cases parseNewspaper_def marcControlNumber_last)

lemma processed_newspaper:
  assumes "processed titleCleanup r"
  shows "charAt (leader r) 6 = ''a''" "charAt (leader r) 7 = ''s''"
    "generalInfo r = Some (infoOf r)" "continuingResourceType (infoOf r) = ''n''"
    "skipLabel (parseNewspaper titleCleanup idx r (infoOf r)) = None"
proof -
  from assms show "charAt (leader r) 6 = ''a''" "charAt (leader r) 7 = ''s''"
    by (simp_all add: processed_def)
  from assms obtain info where info: "generalInfo r = Some info"
    "continuingResourceType info = ''n''"
    "skipLabel (parseNewspaper titleCleanup Map.empty r info) = None"
    by (auto simp add: processed_def split: option.splits)
  then have "infoOf r = info" by (simp add: infoOf_def)
  with info show "generalInfo r = Some (infoOf r)" "continuingResourceType (infoOf r) = ''n''"
    by simp_all
  from info \<open>infoOf r = info\<close>
  show "skipLabel (parseNewspaper titleCleanup idx r (infoOf r)) = None"
    using skipLabel_index [of titleCleanup idx r info Map.empty] by simp
qed

lemma onData_processed:
  assumes "processed titleCleanup r"
  shows "onData titleCleanup getNextNewspaperId idx placeData st r =
     (case reconcile titleCleanup getNextNewspaperId placeData
             (parseNewspaper titleCleanup idx r (infoOf r)) (counted st) of
        Inl e \<Rightarrow> Inl e
      | Inr res \<Rightarrow> Inr (writeMarcFile (parseNewspaper titleCleanup idx r (infoOf r)) res))"
  by (rule onData_newspaper [OF processed_newspaper(1-4) [OF assms]])

lemma onData_not_processed:
  assumes "\<not> processed titleCleanup r"
  shows "\<exists>st'. onData titleCleanup getNextNewspaperId idx placeData st r = Inr st'
      \<and> papers st' = papers st \<and> writes st' = writes st
      \<and> stats st' ''count-new-record'' = stats st ''count-new-record''
      \<and> stats st' ''count-existing-record'' = stats st ''count-existing-record''
      \<and> stats st' ''count-existing-record-updated'' = stats st ''count-existing-record-updated''"
proof (cases "charAt (leader r) 6 = ''a'' \<and> charAt (leader r) 7 = ''s''")
  case False
  then show ?thesis by (auto simp add: onData_def Let_def)
next
  case serial: True
  show ?thesis
  proof (cases "generalInfo r")
    case None
    with serial show ?thesis by (simp add: onData_def Let_def)
  next
    case (Some info)
    show ?thesis
    proof (cases "continuingResourceType info = ''n''")
      case False
      with serial Some show ?thesis by (simp add: onData_def Let_def)
    next
      case True
      let ?p = "parseNewspaper titleCleanup idx r info"
      from assms serial Some True
      have "skipLabel (parseNewspaper titleCleanup Map.empty r info) \<noteq> None"
        by (simp add: processed_def)
      then have "skipLabel ?p \<noteq> None"
        using skipLabel_index [of titleCleanup idx r info Map.empty] by simp
      then obtain label where label: "skipLabel ?p = Some label" by auto
      then have "label \<in> set (map snd skipRules)"
        unfolding skip_labels by (auto simp add: skipLabel_cases split: if_splits)
      then have neq: "label \<noteq> ''count-new-record''" "label \<noteq> ''count-existing-record''"
        "label \<noteq> ''count-existing-record-updated''"
        unfolding skip_labels by auto
      from serial Some True
      have "onData titleCleanup getNextNewspaperId idx placeData st r =
          (case reconcile titleCleanup getNextNewspaperId placeData ?p (counted st) of
             Inl e \<Rightarrow> Inl e | Inr res \<Rightarrow> Inr (writeMarcFile ?p res))"
        by (simp add: onData_newspaper)
      also have "\<dots> = Inr (writeMarcFile ?p (addStats label (counted st), newspaperId ?p))"
        by (simp add: reconcile_skip [OF label])
      finally show ?thesis using neq by simp
    qed
  qed
qed


lemma statCount_writeMarcFile [simp]:
  "statCount (writeMarcFile p res) l = statCount (fst res) l"
  by (simp add: statCount_def)

lemma parseNewspaper_fields [simp]:
  "newspaperId (parseNewspaper titleCleanup idx r info) = resolve idx (nzNumbers r)"
  "bibInfo (parseNewspaper titleCleanup idx r info) = info"
  "marcControlNumber (parseNewspaper titleCleanup idx r info)
     = (if nzNumbers r = [] then None else Some (last (nzNumbers r)))"
  by (simp_all add: parseNewspaper_def newspaperId_resolve marcControlNumber_last)

lemma reconcile_existing_unread:
  assumes pass: "skipLabel p = None"
    and resolved: "newspaperId p = Some nid" "nid \<noteq> []"
    and stored: "map_of (papers st) nid = None"
  shows "reconcile titleCleanup getNextNewspaperId placeData p st = Inl (ExitCode 1)"
proof -
  from pass have checks: "\<not> falsy (marcControlNumber p)" "\<not> isMicroformResource p"
    "\<not> isElectronicResource p" "\<not> infrequent p" "\<not> falsy (bibPlacename p)"
    by (simp_all add: skipLabel_None)
  from resolved have known: "\<not> falsy (newspaperId p)" "jsString (newspaperId p) = nid"
    by (simp_all add: falsy_def jsString_def)
  from stored have read: "readNewspaper (addStats ''count-existing-record'' st) nid = Inl (ExitCode 1)"
    by (simp add: readNewspaper_def)
  show ?thesis
    by (simp add: reconcile_def checks known read Let_def)
qed

lemma reconcile_existing_undated:
  assumes pass: "skipLabel p = None"
    and resolved: "newspaperId p = Some nid" "nid \<noteq> []"
    and stored: "map_of (papers st) nid = Some nw"
    and upd: "updateDates nw (date1 (bibInfo p)) (date2 (bibInfo p)) = Inl e"
  shows "reconcile titleCleanup getNextNewspaperId placeData p st = Inl e"
proof -
  from pass have checks: "\<not> falsy (marcControlNumber p)" "\<not> isMicroformResource p"
    "\<not> isElectronicResource p" "\<not> infrequent p" "\<not> falsy (bibPlacename p)"
    by (simp_all add: skipLabel_None)
  from resolved have known: "\<not> falsy (newspaperId p)" "jsString (newspaperId p) = nid"
    by (simp_all add: falsy_def jsString_def)
  from stored have read: "readNewspaper (addStats ''count-existing-record'' st) nid = Inr nw"
    by (simp add: readNewspaper_def)
  show ?thesis
    by (simp add: reconcile_def checks known read upd Let_def)
qed

lemma onData_existing:
  assumes proc: "processed titleCleanup r"
    and resolved: "resolve idx (nzNumbers r) = Some e" "e \<noteq> []"
    and result: "onData titleCleanup getNextNewspaperId idx placeData st r = Inr st'"
  shows "\<exists>nw nw' u. map_of (papers st) e = Some nw
      \<and> updateDates nw (date1 (infoOf r)) (date2 (infoOf r)) = Inr (nw', u)
      \<and> papers st' = (if u then AList.update e nw' (papers st) else papers st)"
proof -
  let ?p = "parseNewspaper titleCleanup idx r (infoOf r)"
  note pass = processed_newspaper(5) [OF proc, of idx]
  have nid: "newspaperId ?p = Some e" using resolved by simp
  note handler = onData_processed [OF proc, of getNextNewspaperId idx placeData st]
  show ?thesis
  proof (cases "map_of (papers st) e")
    case None
    then have "map_of (papers (counted st)) e = None" by simp
    from reconcile_existing_unread [OF pass nid resolved(2) this] handler result
    show ?thesis by simp
  next
    case (Some nw)
    then have stored: "map_of (papers (counted st)) e = Some nw" by simp
    show ?thesis
    proof (cases "updateDates nw (date1 (infoOf r)) (date2 (infoOf r))")
      case (Inl err)
      then have "updateDates nw (date1 (bibInfo ?p)) (date2 (bibInfo ?p)) = Inl err" by simp
      from reconcile_existing_undated [OF pass nid resolved(2) stored this] handler result
      show ?thesis by simp
    next
      case (Inr res)
      obtain nw' u where res: "res = (nw', u)" by (cases res)
      with Inr have upd: "updateDates nw (date1 (bibInfo ?p)) (date2 (bibInfo ?p)) = Inr (nw', u)"
        by simp
      from reconcile_existing [OF pass nid resolved(2) stored upd] handler result
      have "papers st' = (if u then AList.update e nw' (papers st) else papers st)"
        by (auto split: if_splits)
      with Some Inr res show ?thesis by simp
    qed
  qed
qed

lemma onData_settled:
  assumes proc: "processed titleCleanup r"
    and resolved: "resolve idx (nzNumbers r) = Some e" "e \<noteq> []"
    and stored: "map_of (papers st) e = Some nw" and still: "settled nw r"
  shows "\<exists>st'. onData titleCleanup getNextNewspaperId idx placeData st r = Inr st'
      \<and> papers st' = papers st \<and> writes st' = writes st
      \<and> stats st' ''count-new-record'' = stats st ''count-new-record''
      \<and> stats st' ''count-existing-record-updated'' = stats st ''count-existing-record-updated''
      \<and> statCount st' ''count-existing-record'' = Suc (statCount st ''count-existing-record'')"
proof -
  let ?p = "parseNewspaper titleCleanup idx r (infoOf r)"
  note pass = processed_newspaper(5) [OF proc, of idx]
  have nid: "newspaperId ?p = Some e" using resolved by simp
  from stored have stored': "map_of (papers (counted st)) e = Some nw" by simp
  from still have upd: "updateDates nw (date1 (bibInfo ?p)) (date2 (bibInfo ?p)) = Inr (nw, False)"
    by (simp add: settled_def)
  from reconcile_existing [OF pass nid resolved(2) stored' upd]
    onData_processed [OF proc, of getNextNewspaperId idx placeData st]
  show ?thesis by (simp add: statCount_addStats)
qed

lemma onData_created:
  assumes proc: "processed titleCleanup r"
    and unresolved: "falsy (resolve idx (nzNumbers r))"
  shows "\<exists>st'. onData titleCleanup getNextNewspaperId idx placeData st r = Inr st'
      \<and> papers st' = AList.update (getNextNewspaperId (papers st))
           (newRecord titleCleanup placeData (getNextNewspaperId (papers st))
              (parseNewspaper titleCleanup idx r (infoOf r)))
           (papers st)"
proof -
  let ?p = "parseNewspaper titleCleanup idx r (infoOf r)"
  note pass = processed_newspaper(5) [OF proc, of idx]
  have nid: "falsy (newspaperId ?p)" using unresolved by simp
  from reconcile_new [OF pass nid, of titleCleanup getNextNewspaperId placeData "counted st"]
    onData_processed [OF proc, of getNextNewspaperId idx placeData st]
  show ?thesis by simp
qed

subsection \<open>Records that an update leaves as they are\<close>

lemma reconciledDate_again: "reconciledDate (reconciledDate stored new) new = reconciledDate stored new"
  by (simp add: reconciledDate_def)

lemma updateDates_years:
  assumes "updateDates nw d1 d2 = Inr (nw', u)"
  shows "\<exists>storedFirst storedFinal. firstYear nw = Some storedFirst \<and> finalYear nw = Some storedFinal"
proof (cases "firstYear nw")
  case None
  with assms show ?thesis by (simp add: updateDates_def)
next
  case first: (Some storedFirst)
  show ?thesis
  proof (cases "finalYear nw")
    case None
    with assms first show ?thesis by (simp add: updateDates_def Let_def split: if_splits)
  next
    case (Some storedFinal)
    with first show ?thesis by simp
  qed
qed

lemma updateDates_settles:
  assumes "updateDates nw d1 d2 = Inr (nw', u)"
  shows "updateDates nw' d1 d2 = Inr (nw', False)"
proof -
  from updateDates_years [OF assms] obtain storedFirst storedFinal
    where years: "firstYear nw = Some storedFirst" "finalYear nw = Some storedFinal" by blast
  from updateDates_result [OF years, of d1 d2] assms
  have nw': "nw' = nw\<lparr>firstYear := Some (reconciledDate storedFirst d1),
                   finalYear := Some (reconciledDate storedFinal d2),
                   isCurrent := Some (reconciledDate storedFinal d2 = ''9999'')\<rparr>"
    by simp
  then have years': "firstYear nw' = Some (reconciledDate storedFirst d1)"
    "finalYear nw' = Some (reconciledDate storedFinal d2)"
    "isCurrent nw' = Some (reconciledDate storedFinal d2 = ''9999'')"
    by simp_all
  have same: "nw'\<lparr>firstYear := Some (reconciledDate storedFirst d1),
                   finalYear := Some (reconciledDate storedFinal d2),
                   isCurrent := Some (reconciledDate storedFinal d2 = ''9999'')\<rparr> = nw'"
    by (simp add: nw')
  from updateDates_result [OF years'(1,2), of d1 d2]
  show ?thesis by (simp add: reconciledDate_again years'(3) same)
qed

lemma updateDates_unchanged:
  assumes "updateDates nw d1 d2 = Inr (nw', False)"
  shows "nw' = nw"
proof -
  from updateDates_years [OF assms] obtain storedFirst storedFinal
    where years: "firstYear nw = Some storedFirst" "finalYear nw = Some storedFinal" by blast
  from updateDates_result [OF years, of d1 d2] assms
  have nw': "nw' = nw\<lparr>firstYear := Some (reconciledDate storedFirst d1),
                   finalYear := Some (reconciledDate storedFinal d2),
                   isCurrent := Some (reconciledDate storedFinal d2 = ''9999'')\<rparr>"
    and same: "reconciledDate storedFirst d1 = storedFirst"
      "reconciledDate storedFinal d2 = storedFinal"
      "isCurrent nw = Some (reconciledDate storedFinal d2 = ''9999'')"
    by simp_all
  from nw' same years show ?thesis by simp
qed

lemma updateDates_control_number:
  assumes "updateDates nw d1 d2 = Inr (nw', u)"
  shows "idMarcControlNumber nw' = idMarcControlNumber nw"
proof -
  from updateDates_years [OF assms] obtain storedFirst storedFinal
    where years: "firstYear nw = Some storedFirst" "finalYear nw = Some storedFinal" by blast
  from updateDates_result [OF years, of d1 d2] assms show ?thesis by auto
qed

lemma newRecord_settled:
  assumes "consistentDates r"
  shows "settled (newRecord titleCleanup placeData nid (parseNewspaper titleCleanup idx r (infoOf r))) r"
proof -
  let ?new = "newRecord titleCleanup placeData nid (parseNewspaper titleCleanup idx r (infoOf r))"
  have years: "firstYear ?new = Some (date1 (infoOf r))" "finalYear ?new = Some (date2 (infoOf r))"
    by (simp_all add: newRecord_def Let_def)
  from assms have current: "isCurrent ?new = Some (date2 (infoOf r) = ''9999'')"
    by (simp add: newRecord_def Let_def consistentDates_def)
  have keep: "reconciledDate d d = d" for d by (simp add: reconciledDate_def)
  have same: "?new\<lparr>firstYear := Some (date1 (infoOf r)), finalYear := Some (date2 (infoOf r)),
                   isCurrent := Some (date2 (infoOf r) = ''9999'')\<rparr> = ?new"
    using years current by simp
  from updateDates_result [OF years, of "date1 (infoOf r)" "date2 (infoOf r)"]
  show ?thesis unfolding settled_def by (simp add: keep current same)
qed

subsection \<open>Stores as association lists\<close>

lemma update_fresh: "k \<notin> fst ` set al \<Longrightarrow> AList.update k v al = al @ [(k, v)]"
  by (induction al) auto

lemma update_in_prefix:
  "k \<in> fst ` set al \<Longrightarrow> AList.update k v (al @ al') = AList.update k v al @ al'"
  by (induction al) auto

lemma map_of_prefix: "k \<in> fst ` set al \<Longrightarrow> map_of (al @ al') k = map_of al k"
  by (induction al) auto

lemma map_of_suffix: "k \<notin> fst ` set al \<Longrightarrow> map_of (al @ al') k = map_of al' k"
  by (induction al) auto

lemma claimedPairs_distinct_ids:
  "distinct (map fst S) \<Longrightarrow> distinct (map snd (claimedPairs S))"
proof (induction S)
  case Nil
  then show ?case by simp
next
  case (Cons entry S)
  then have "fst entry \<notin> snd ` set (claimedPairs S)"
    using claimedPairs_ids [of _ "fst entry" S] by auto
  with Cons show ?case by (auto split: option.splits)
qed

lemma claimedPairs_one_number:
  assumes "distinct (map fst S)" and "(c, i) \<in> set (claimedPairs S)" and "(c', i) \<in> set (claimedPairs S)"
  shows "c = c'"
proof -
  from claimedPairs_distinct_ids [OF assms(1)] have "inj_on snd (set (claimedPairs S))"
    by (simp add: distinct_map)
  from inj_onD [OF this _ assms(2,3)] show ?thesis by simp
qed

subsection \<open>The first run keeps its invariant\<close>

lemma sameEntries_keys: "list_all2 sameEntry S0 U \<Longrightarrow> map fst U = map fst S0"
  by (induction rule: list_all2_induct) (auto simp: sameEntry_def)

lemma sameEntries_claims: "list_all2 sameEntry S0 U \<Longrightarrow> claimedPairs U = claimedPairs S0"
  by (induction rule: list_all2_induct) (auto simp: sameEntry_def split: option.splits)

lemma sameEntries_update:
  assumes "list_all2 sameEntry S0 U" and "map_of U e = Some old"
    and "idMarcControlNumber v = idMarcControlNumber old"
  shows "list_all2 sameEntry S0 (AList.update e v U)"
  using assms
proof (induction rule: list_all2_induct)
  case Nil
  then show ?case by simp
next
  case (Cons a S0 b U)
  show ?case
  proof (cases "fst b = e")
    case True
    with Cons.prems have old: "snd b = old" by (cases b) simp
    from True have upd: "AList.update e v (b # U) = (e, v) # U" by (cases b) simp
    from Cons.hyps(1) True old Cons.prems(2) have "sameEntry a (e, v)"
      by (simp add: sameEntry_def)
    with Cons.hyps(2) show ?thesis unfolding upd by simp
  next
    case False
    with Cons.prems have "map_of U e = Some old" by (cases b) (simp split: if_splits)
    from False have upd: "AList.update e v (b # U) = b # AList.update e v U" by (cases b) simp
    from Cons.IH [OF \<open>map_of U e = Some old\<close> Cons.prems(2)] Cons.hyps(1) show ?thesis
      unfolding upd by simp
  qed
qed

lemma index_entry:
  assumes "idx0 = map_of (claimedPairs S0)" and "idx0 c = Some e"
  shows "(c, e) \<in> set (claimedPairs S0)" and "e \<in> fst ` set S0"
proof -
  from assms show "(c, e) \<in> set (claimedPairs S0)" by (simp add: map_of_SomeD)
  then show "e \<in> fst ` set S0" by (rule claimedPairs_ids)
qed

lemma resolve_existing_id:
  assumes "idx0 = map_of (claimedPairs S0)" and "[] \<notin> fst ` set S0"
    and "resolve idx0 ns = Some e"
  shows "e \<noteq> []" and "\<exists>c \<in> set ns. (c, e) \<in> set (claimedPairs S0)" and "e \<in> fst ` set S0"
proof -
  from resolve_truthy [of idx0 ns] assms(3) show ne: "e \<noteq> []" by auto
  from resolve_found [OF assms(3) ne] obtain c where c: "c \<in> set ns" "idx0 c = Some e" by blast
  from index_entry [OF assms(1) c(2)] c(1)
  show "\<exists>c \<in> set ns. (c, e) \<in> set (claimedPairs S0)" and "e \<in> fst ` set S0" by auto
qed

lemma different_homes:
  assumes idx0: "idx0 = map_of (claimedPairs S0)" and ids: "distinct (map fst S0)" "[] \<notin> fst ` set S0"
    and r: "resolve idx0 (nzNumbers r) = Some e" and r': "resolve idx0 (nzNumbers r') = Some e'"
    and disj: "disjointNumbers r' r"
  shows "e' \<noteq> e"
proof
  assume same: "e' = e"
  from resolve_existing_id(2) [OF idx0 ids(2) r] obtain c
    where c: "c \<in> set (nzNumbers r)" "(c, e) \<in> set (claimedPairs S0)" by blast
  from resolve_existing_id(2) [OF idx0 ids(2) r'] same obtain c'
    where c': "c' \<in> set (nzNumbers r')" "(c', e) \<in> set (claimedPairs S0)" by blast
  from claimedPairs_one_number [OF ids(1) c(2) c'(2)] have "c = c'" .
  with c(1) c'(1) disj show False by (auto simp: disjointNumbers_def)
qed

lemma processed_has_number:
  assumes "processed titleCleanup r"
  shows "nzNumbers r \<noteq> []" and "last (nzNumbers r) \<noteq> []"
    and "marcControlNumber (parseNewspaper titleCleanup idx r (infoOf r)) = Some (last (nzNumbers r))"
proof -
  from processed_newspaper(5) [OF assms, of idx]
  have "\<not> falsy (marcControlNumber (parseNewspaper titleCleanup idx r (infoOf r)))"
    by (simp add: skipLabel_None)
  then show "nzNumbers r \<noteq> []" and "last (nzNumbers r) \<noteq> []"
    by (auto simp add: falsy_def split: if_splits)
  then show "marcControlNumber (parseNewspaper titleCleanup idx r (infoOf r)) = Some (last (nzNumbers r))"
    by simp
qed

lemma firstRunInvariant_step:
  assumes inv: "firstRunInvariant titleCleanup idx0 S0 P (papers st)"
    and step: "onData titleCleanup getNextNewspaperId idx0 pd0 st r = Inr st'"
    and idx0: "idx0 = map_of (claimedPairs S0)"
    and ids: "distinct (map fst S0)" "[] \<notin> fst ` set S0"
    and fresh: "\<forall>S. getNextNewspaperId S \<notin> fst ` set S \<and> getNextNewspaperId S \<noteq> []"
    and disj: "processed titleCleanup r \<Longrightarrow>
         \<forall>r' \<in> set P. processed titleCleanup r' \<longrightarrow> disjointNumbers r' r"
    and dates: "creates titleCleanup idx0 r \<Longrightarrow> consistentDates r"
  shows "firstRunInvariant titleCleanup idx0 S0 (P @ [r]) (papers st')"
proof -
  from inv obtain U C where S: "papers st = U @ C" and U: "list_all2 sameEntry S0 U"
    and C: "list_all2 (createdFor S0) C (filter (creates titleCleanup idx0) P)"
    and dC: "distinct (map fst C)"
    and homes: "\<forall>r \<in> set P. processed titleCleanup r \<longrightarrow>
              (\<forall>e. resolve idx0 (nzNumbers r) = Some e \<longrightarrow>
                 (\<exists>nw. map_of U e = Some nw \<and> settled nw r))"
    unfolding firstRunInvariant_def by blast
  note keys = sameEntries_keys [OF U]
  show ?thesis
  proof (cases "processed titleCleanup r")
    case False
    from onData_not_processed [OF False, of getNextNewspaperId idx0 pd0 st] step
    have same: "papers st' = papers st" by auto
    from False have "filter (creates titleCleanup idx0) (P @ [r]) = filter (creates titleCleanup idx0) P"
      by (simp add: creates_def)
    with S U C dC homes False show ?thesis
      unfolding firstRunInvariant_def same by auto
  next
    case proc: True
    show ?thesis
    proof (cases "resolve idx0 (nzNumbers r)")
      case None
      then have unresolved: "falsy (resolve idx0 (nzNumbers r))" by (simp add: falsy_def)
      with proc have creator: "creates titleCleanup idx0 r" by (simp add: creates_def)
      let ?i = "getNextNewspaperId (papers st)"
      let ?new = "newRecord titleCleanup pd0 ?i (parseNewspaper titleCleanup idx0 r (infoOf r))"
      from onData_created [OF proc unresolved, of getNextNewspaperId pd0 st] step
      have st': "papers st' = AList.update ?i ?new (papers st)" by auto
      from fresh have i: "?i \<notin> fst ` set (papers st)" "?i \<noteq> []" by auto
      from st' i(1) have papers': "papers st' = U @ (C @ [(?i, ?new)])"
        by (simp add: update_fresh S)
      from i(1) S have "?i \<notin> fst ` set U" "?i \<notin> fst ` set C" by auto
      with keys have notS0: "?i \<notin> fst ` set S0" by (metis set_map)
      have number: "idMarcControlNumber ?new = Some (last (nzNumbers r))"
        using processed_has_number(3) [OF proc, of idx0] by (simp add: newRecord_def Let_def)
      from notS0 i(2) number newRecord_settled [OF dates [OF creator]]
      have "createdFor S0 (?i, ?new) r" by (simp add: createdFor_def)
      with C creator have C': "list_all2 (createdFor S0) (C @ [(?i, ?new)])
          (filter (creates titleCleanup idx0) (P @ [r]))"
        by (simp add: list_all2_appendI)
      from dC \<open>?i \<notin> fst ` set C\<close> have dC': "distinct (map fst (C @ [(?i, ?new)]))" by simp
      from homes None have homes': "\<forall>r \<in> set (P @ [r]). processed titleCleanup r \<longrightarrow>
              (\<forall>e. resolve idx0 (nzNumbers r) = Some e \<longrightarrow>
                 (\<exists>nw. map_of U e = Some nw \<and> settled nw r))"
        by auto
      from papers' U C' dC' homes' show ?thesis
        unfolding firstRunInvariant_def by blast
    next
      case (Some e)
      note here = resolve_existing_id [OF idx0 ids(2) Some]
      from here(3) keys have inU: "e \<in> fst ` set U" by (metis set_map)
      from onData_existing [OF proc Some here(1) step] obtain nw nw' u
        where read: "map_of (papers st) e = Some nw"
          and upd: "updateDates nw (date1 (infoOf r)) (date2 (infoOf r)) = Inr (nw', u)"
          and st': "papers st' = (if u then AList.update e nw' (papers st) else papers st)"
        by blast
      from read have "map_of (U @ C) e = Some nw" unfolding S .
      then have readU: "map_of U e = Some nw" by (simp only: map_of_prefix [OF inU])
      let ?U' = "if u then AList.update e nw' U else U"
      from st' have papers': "papers st' = ?U' @ C"
        by (simp add: S update_in_prefix [OF inU])
      have U': "list_all2 sameEntry S0 ?U'"
        using sameEntries_update [OF U readU updateDates_control_number [OF upd]] U by simp
      have here': "\<exists>nw''. map_of ?U' e = Some nw'' \<and> settled nw'' r"
      proof (cases u)
        case True
        with updateDates_settles [OF upd] show ?thesis
          by (simp add: update_conv' settled_def)
      next
        case False
        with upd updateDates_unchanged [of nw _ _ nw'] have "nw' = nw" by simp
        with False upd readU show ?thesis by (simp add: settled_def)
      qed
      have others: "\<exists>nw''. map_of ?U' e' = Some nw'' \<and> settled nw'' r'"
        if r': "r' \<in> set P" "processed titleCleanup r'" "resolve idx0 (nzNumbers r') = Some e'"
        for r' e'
      proof -
        from disj [OF proc] r' have "disjointNumbers r' r" by blast
        from different_homes [OF idx0 ids Some r'(3) this] have "e' \<noteq> e" .
        then have "map_of ?U' e' = map_of U e'" by (simp add: update_conv')
        with homes r' show ?thesis by auto
      qed
      have homes': "\<forall>r \<in> set (P @ [r]). processed titleCleanup r \<longrightarrow>
              (\<forall>e. resolve idx0 (nzNumbers r) = Some e \<longrightarrow>
                 (\<exists>nw. map_of ?U' e = Some nw \<and> settled nw r))"
      proof (intro ballI impI allI)
        fix x e'
        assume x: "x \<in> set (P @ [r])" "processed titleCleanup x"
          "resolve idx0 (nzNumbers x) = Some e'"
        show "\<exists>nw. map_of ?U' e' = Some nw \<and> settled nw x"
        proof (cases "x = r")
          case True
          with x(3) Some have "e' = e" by simp
          with here' True show ?thesis by simp
        next
          case False
          with x(1) have "x \<in> set P" by simp
          from others [OF this x(2,3)] show ?thesis .
        qed
      qed
      from Some have "\<not> creates titleCleanup idx0 r"
        using here(1) by (simp add: creates_def falsy_def)
      then have "filter (creates titleCleanup idx0) (P @ [r]) = filter (creates titleCleanup idx0) P"
        by simp
      with C have C': "list_all2 (createdFor S0) C (filter (creates titleCleanup idx0) (P @ [r]))"
        by simp
      from papers' U' C' dC homes' show ?thesis
        unfolding firstRunInvariant_def by blast
    qed
  qed
qed

lemma foldE_Cons_result:
  assumes "foldE f s (x # xs) = Inr s1"
  obtains s' where "f s x = Inr s'" and "foldE f s' xs = Inr s1"
  using assms by (cases "f s x") auto

lemma firstRunInvariant_start:
  "firstRunInvariant titleCleanup idx0 S0 [] (papers (initialState S0))"
proof -
  have "list_all2 sameEntry S0 S0"
    by (simp add: list_all2_refl sameEntry_def)
  then show ?thesis
    unfolding firstRunInvariant_def initialState_def
    by (intro exI [of _ S0] exI [of _ "[]"]) simp
qed

lemma firstRunInvariant_run:
  assumes "firstRunInvariant titleCleanup idx0 S0 P (papers st)"
    and "foldE (onData titleCleanup getNextNewspaperId idx0 pd0) st Q = Inr st1"
    and idx0: "idx0 = map_of (claimedPairs S0)"
    and ids: "distinct (map fst S0)" "[] \<notin> fst ` set S0"
    and fresh: "\<forall>S. getNextNewspaperId S \<notin> fst ` set S \<and> getNextNewspaperId S \<noteq> []"
    and "sorted_wrt disjointNumbers (filter (processed titleCleanup) (P @ Q))"
    and "\<forall>r \<in> set Q. creates titleCleanup idx0 r \<longrightarrow> consistentDates r"
  shows "firstRunInvariant titleCleanup idx0 S0 (P @ Q) (papers st1)"
  using assms(1,2,7,8)
proof (induction Q arbitrary: P st)
  case Nil
  then show ?case by simp
next
  case (Cons r Q)
  from Cons.prems(2) obtain st' where
    step: "onData titleCleanup getNextNewspaperId idx0 pd0 st r = Inr st'"
    and rest: "foldE (onData titleCleanup getNextNewspaperId idx0 pd0) st' Q = Inr st1"
    by (rule foldE_Cons_result)
  have disj: "\<forall>r' \<in> set P. processed titleCleanup r' \<longrightarrow> disjointNumbers r' r"
    if "processed titleCleanup r"
    using Cons.prems(3) that by (auto simp add: sorted_wrt_append)
  have dates: "consistentDates r" if "creates titleCleanup idx0 r"
    using Cons.prems(4) that by simp
  from firstRunInvariant_step [OF Cons.prems(1) step idx0 ids fresh disj dates]
  have inv': "firstRunInvariant titleCleanup idx0 S0 (P @ [r]) (papers st')" .
  from Cons.prems(3) have sorted': "sorted_wrt disjointNumbers
      (filter (processed titleCleanup) ((P @ [r]) @ Q))" by simp
  from Cons.prems(4) have dates': "\<forall>r \<in> set Q. creates titleCleanup idx0 r \<longrightarrow> consistentDates r"
    by simp
  from Cons.IH [OF inv' rest sorted' dates'] show ?case by simp
qed

subsection \<open>The store of the first run, scanned again\<close>

lemma created_claims:
  assumes "list_all2 (createdFor S0) C Rs" and "\<forall>r \<in> set Rs. last (nzNumbers r) \<noteq> []"
  shows "claimedPairs C = zip (map (\<lambda>r. last (nzNumbers r)) Rs) (map fst C)"
  using assms by (induction rule: list_all2_induct) (auto simp: createdFor_def)

lemma disjoint_last_numbers:
  assumes "sorted_wrt disjointNumbers Rs" and "\<forall>r \<in> set Rs. nzNumbers r \<noteq> []"
  shows "distinct (map (\<lambda>r. last (nzNumbers r)) Rs)"
  using assms
proof (induction Rs)
  case Nil
  then show ?case by simp
next
  case (Cons r Rs)
  have "last (nzNumbers r) \<noteq> last (nzNumbers r')" if "r' \<in> set Rs" for r'
  proof
    assume same: "last (nzNumbers r) = last (nzNumbers r')"
    from Cons.prems(2) that have "nzNumbers r \<noteq> []" "nzNumbers r' \<noteq> []" by simp_all
    then have "last (nzNumbers r) \<in> set (nzNumbers r)" "last (nzNumbers r') \<in> set (nzNumbers r')"
      by simp_all
    moreover from Cons.prems(1) that have "disjointNumbers r r'" by simp
    ultimately show False using same by (auto simp: disjointNumbers_def)
  qed
  with Cons show ?case by auto
qed

lemma disjoint_in_list:
  assumes "sorted_wrt disjointNumbers Rs" and "x \<in> set Rs" and "y \<in> set Rs" and "x \<noteq> y"
  shows "disjointNumbers x y"
proof -
  from assms(2,3) obtain i j where ij: "i < length Rs" "Rs ! i = x" "j < length Rs" "Rs ! j = y"
    by (auto simp: in_set_conv_nth)
  with assms(4) have "i < j \<or> j < i" by (cases "i = j") auto
  then show ?thesis
  proof
    assume "i < j"
    from sorted_wrt_nth_less [OF assms(1) this ij(3)] ij show ?thesis by simp
  next
    assume "j < i"
    from sorted_wrt_nth_less [OF assms(1) this ij(1)] ij show ?thesis
      by (auto simp: disjointNumbers_def)
  qed
qed

lemma creators_filter:
  "filter (creates titleCleanup idx0) M
   = filter (\<lambda>r. falsy (resolve idx0 (nzNumbers r))) (filter (processed titleCleanup) M)"
  by (induction M) (auto simp: creates_def)

lemma unresolved_unclaimed:
  assumes idx0: "idx0 = map_of (claimedPairs S0)" and ids: "[] \<notin> fst ` set S0"
    and "falsy (resolve idx0 ns)" and "c \<in> set ns"
  shows "idx0 c = None"
proof (cases "idx0 c")
  case None
  then show ?thesis .
next
  case (Some e)
  from index_entry(2) [OF idx0 Some] ids have "e \<noteq> []" by metis
  with Some have "\<not> falsy (idx0 c)" by (simp add: falsy_def)
  with assms(3,4) show ?thesis by (simp add: resolve_falsy)
qed

lemma second_scan:
  assumes inv: "firstRunInvariant titleCleanup idx0 S0 M S1"
    and idx0: "idx0 = map_of (claimedPairs S0)" and d0: "distinct (map fst (claimedPairs S0))"
    and ids: "distinct (map fst S0)" "[] \<notin> fst ` set S0"
    and disj: "sorted_wrt disjointNumbers (filter (processed titleCleanup) M)"
  shows "(\<exists>pd1. scanRecords S1 = Inr (map_of (claimedPairs S1), pd1))
    \<and> (\<forall>r \<in> set M. processed titleCleanup r \<longrightarrow>
         (\<exists>e nw. resolve (map_of (claimedPairs S1)) (nzNumbers r) = Some e \<and> e \<noteq> []
            \<and> map_of S1 e = Some nw \<and> settled nw r))"
proof -
  let ?Rs = "filter (creates titleCleanup idx0) M"
  let ?mC = "\<lambda>C. map_of (claimedPairs C)"
  from inv obtain U C where S1: "S1 = U @ C" and U: "list_all2 sameEntry S0 U"
    and C: "list_all2 (createdFor S0) C ?Rs"
    and dC: "distinct (map fst C)"
    and homes: "\<forall>r \<in> set M. processed titleCleanup r \<longrightarrow>
              (\<forall>e. resolve idx0 (nzNumbers r) = Some e \<longrightarrow>
                 (\<exists>nw. map_of U e = Some nw \<and> settled nw r))"
    unfolding firstRunInvariant_def by blast
  note keys = sameEntries_keys [OF U]
  have pairs: "claimedPairs S1 = claimedPairs S0 @ claimedPairs C"
    by (simp add: S1 claimedPairs_append sameEntries_claims [OF U])
  have creators: "processed titleCleanup r" "nzNumbers r \<noteq> []" "last (nzNumbers r) \<noteq> []"
    "falsy (resolve idx0 (nzNumbers r))" "r \<in> set M"
    if "r \<in> set ?Rs" for r
  proof -
    from that show p: "processed titleCleanup r" and "falsy (resolve idx0 (nzNumbers r))"
      and "r \<in> set M"
      by (simp_all add: creates_def)
    from processed_has_number(1,2) [OF p] show "nzNumbers r \<noteq> []" "last (nzNumbers r) \<noteq> []" .
  qed
  from C have len: "length C = length ?Rs" by (rule list_all2_lengthD)
  have cC: "claimedPairs C = zip (map (\<lambda>r. last (nzNumbers r)) ?Rs) (map fst C)"
    using created_claims [OF C] creators(3) by blast
  with len have numbers: "map fst (claimedPairs C) = map (\<lambda>r. last (nzNumbers r)) ?Rs"
    by simp
  have sortedRs: "sorted_wrt disjointNumbers ?Rs"
    unfolding creators_filter using disj by (rule sorted_wrt_filter)
  have dNumbers: "distinct (map fst (claimedPairs C))"
    unfolding numbers using disjoint_last_numbers [OF sortedRs] creators(2) by blast
  have unclaimed: "idx0 (last (nzNumbers r)) = None" if "r \<in> set ?Rs" for r
  proof -
    from creators(2) [OF that] have "last (nzNumbers r) \<in> set (nzNumbers r)" by simp
    from unresolved_unclaimed [OF idx0 ids(2) creators(4) [OF that] this] show ?thesis .
  qed
  have apart: "set (map fst (claimedPairs S0)) \<inter> set (map fst (claimedPairs C)) = {}"
  proof (rule ccontr)
    assume "set (map fst (claimedPairs S0)) \<inter> set (map fst (claimedPairs C)) \<noteq> {}"
    then obtain c where c0: "c \<in> set (map fst (claimedPairs S0))"
      and cC: "c \<in> set (map fst (claimedPairs C))" by blast
    from cC obtain r where r: "r \<in> set ?Rs" "c = last (nzNumbers r)"
      unfolding numbers by auto
    from c0 have "c \<in> dom idx0" by (simp add: idx0 dom_map_of_conv_image_fst)
    with unclaimed [OF r(1)] r(2) show False by auto
  qed
  from d0 dNumbers apart have d1: "distinct (map fst (claimedPairs S1))"
    by (simp add: pairs)
  have "fst ` set (claimedPairs S1) \<inter> dom (Map.empty :: string \<rightharpoonup> string) = {}" by simp
  from scan_backward [OF d1 this, of S1 Map.empty]
  have scan: "\<exists>pd1. scanRecords S1 = Inr (map_of (claimedPairs S1), pd1)"
    by (simp add: scanRecords_def)
  have idx1: "map_of (claimedPairs S1) c = (case idx0 c of None \<Rightarrow> ?mC C c | Some e \<Rightarrow> Some e)" for c
    by (simp add: pairs idx0 map_add_def)
  have resolved: "\<exists>e nw. resolve (map_of (claimedPairs S1)) (nzNumbers r) = Some e \<and> e \<noteq> []
            \<and> map_of S1 e = Some nw \<and> settled nw r"
    if r: "r \<in> set M" "processed titleCleanup r" for r
  proof (cases "resolve idx0 (nzNumbers r)")
    case (Some e)
    note here = resolve_existing_id [OF idx0 ids(2) Some]
    from Some here(1) have notCreator: "r \<notin> set ?Rs"
      by (simp add: creates_def falsy_def)
    have "map_of (claimedPairs S1) c = idx0 c" if c: "c \<in> set (nzNumbers r)" for c
    proof (cases "idx0 c")
      case (Some e')
      then show ?thesis by (simp add: idx1)
    next
      case None
      have "c \<notin> set (map fst (claimedPairs C))"
      proof
        assume "c \<in> set (map fst (claimedPairs C))"
        then obtain r' where r': "r' \<in> set ?Rs" "c = last (nzNumbers r')"
          unfolding numbers by auto
        from r'(1) notCreator have "r' \<noteq> r" by auto
        moreover from creators(1,5) [OF r'(1)] have "r' \<in> set (filter (processed titleCleanup) M)"
          by simp
        moreover from r have "r \<in> set (filter (processed titleCleanup) M)" by simp
        ultimately have "disjointNumbers r' r" using disjoint_in_list [OF disj] by blast
        moreover from creators(2) [OF r'(1)] r'(2) have "c \<in> set (nzNumbers r')" by simp
        ultimately show False using c by (auto simp: disjointNumbers_def)
      qed
      then have "?mC C c = None" by (simp add: map_of_eq_None_iff)
      with None show ?thesis by (simp add: idx1)
    qed
    then have "resolve (map_of (claimedPairs S1)) (nzNumbers r) = resolve idx0 (nzNumbers r)"
      by (intro resolve_cong) simp
    with Some have res: "resolve (map_of (claimedPairs S1)) (nzNumbers r) = Some e" by simp
    from here(3) keys have inU: "e \<in> fst ` set U" by (metis set_map)
    from homes r Some obtain nw where "map_of U e = Some nw" "settled nw r" by blast
    with map_of_prefix [OF inU, of C] have "map_of S1 e = Some nw" by (simp only: S1)
    with res here(1) \<open>settled nw r\<close> show ?thesis by blast
  next
    case None
    with r have creator: "r \<in> set ?Rs" by (simp add: creates_def falsy_def)
    then obtain k where k: "k < length ?Rs" "?Rs ! k = r"
      unfolding in_set_conv_nth [of r ?Rs] by blast
    with len have kC: "k < length C" by simp
    from list_all2_nthD2 [OF C k(1)] k(2) have made: "createdFor S0 (C ! k) r" by simp
    obtain i new where entry: "C ! k = (i, new)" by (cases "C ! k")
    from kC entry have inC: "(i, new) \<in> set C" by (metis nth_mem)
    from made entry have i: "i \<notin> fst ` set S0" "i \<noteq> []"
      and number: "idMarcControlNumber new = Some (last (nzNumbers r))"
      and still: "settled new r"
      by (simp_all add: createdFor_def)
    from inC number creators(3) [OF creator]
    have "(last (nzNumbers r), i) \<in> set (claimedPairs C)"
      by (auto simp add: claimedPairs_iff)
    with dNumbers have "?mC C (last (nzNumbers r)) = Some i" by simp
    with unclaimed [OF creator] have "map_of (claimedPairs S1) (last (nzNumbers r)) = Some i"
      by (simp add: idx1)
    from resolve_last [where idx = "map_of (claimedPairs S1)", OF creators(2) [OF creator] this i(2)]
    have res: "resolve (map_of (claimedPairs S1)) (nzNumbers r) = Some i" .
    from i(1) keys have "i \<notin> fst ` set U" by (metis set_map)
    from map_of_suffix [OF this, of C] have "map_of S1 i = map_of C i" by (simp only: S1)
    also from dC inC have "\<dots> = Some new" by simp
    finally have "map_of S1 i = Some new" .
    with res i(2) still show ?thesis by blast
  qed
  from scan resolved show ?thesis by blast
qed

subsection \<open>A run over settled records\<close>

lemma settled_run:
  assumes "\<forall>r \<in> set Q. processed titleCleanup r \<longrightarrow>
         (\<exists>e nw. resolve idx (nzNumbers r) = Some e \<and> e \<noteq> []
            \<and> map_of (papers st) e = Some nw \<and> settled nw r)"
  shows "\<exists>st'. foldE (onData titleCleanup getNextNewspaperId idx placeData) st Q = Inr st'
      \<and> papers st' = papers st \<and> writes st' = writes st
      \<and> stats st' ''count-new-record'' = stats st ''count-new-record''
      \<and> stats st' ''count-existing-record-updated'' = stats st ''count-existing-record-updated''
      \<and> statCount st' ''count-existing-record''
          = statCount st ''count-existing-record'' + length (filter (processed titleCleanup) Q)"
  using assms
proof (induction Q arbitrary: st)
  case Nil
  then show ?case by simp
next
  case (Cons r Q)
  have "\<exists>st1. onData titleCleanup getNextNewspaperId idx placeData st r = Inr st1
      \<and> papers st1 = papers st \<and> writes st1 = writes st
      \<and> stats st1 ''count-new-record'' = stats st ''count-new-record''
      \<and> stats st1 ''count-existing-record-updated'' = stats st ''count-existing-record-updated''
      \<and> statCount st1 ''count-existing-record''
          = statCount st ''count-existing-record'' + (if processed titleCleanup r then 1 else 0)"
  proof (cases "processed titleCleanup r")
    case True
    with Cons.prems obtain e nw where "resolve idx (nzNumbers r) = Some e" "e \<noteq> []"
      "map_of (papers st) e = Some nw" "settled nw r" by auto
    from onData_settled [OF True this, of getNextNewspaperId placeData] True
    show ?thesis by auto
  next
    case False
    from onData_not_processed [OF False, of getNextNewspaperId idx placeData st] False
    show ?thesis by (auto simp add: statCount_def)
  qed
  then obtain st1 where step: "onData titleCleanup getNextNewspaperId idx placeData st r = Inr st1"
    and same: "papers st1 = papers st" "writes st1 = writes st"
      "stats st1 ''count-new-record'' = stats st ''count-new-record''"
      "stats st1 ''count-existing-record-updated'' = stats st ''count-existing-record-updated''"
      "statCount st1 ''count-existing-record''
          = statCount st ''count-existing-record'' + (if processed titleCleanup r then 1 else 0)"
    by blast
  from Cons.prems same(1) have "\<forall>r \<in> set Q. processed titleCleanup r \<longrightarrow>
         (\<exists>e nw. resolve idx (nzNumbers r) = Some e \<and> e \<noteq> []
            \<and> map_of (papers st1) e = Some nw \<and> settled nw r)"
    by simp
  from Cons.IH [OF this] obtain st' where
    rest: "foldE (onData titleCleanup getNextNewspaperId idx placeData) st1 Q = Inr st'"
    and same': "papers st' = papers st1" "writes st' = writes st1"
      "stats st' ''count-new-record'' = stats st1 ''count-new-record''"
      "stats st' ''count-existing-record-updated'' = stats st1 ''count-existing-record-updated''"
      "statCount st' ''count-existing-record''
          = statCount st1 ''count-existing-record'' + length (filter (processed titleCleanup) Q)"
    by blast
  from step rest have "foldE (onData titleCleanup getNextNewspaperId idx placeData) st (r # Q) = Inr st'"
    by simp
  with same same' show ?case by (intro exI [of _ st']) auto
qed

lemma longerId_longer: "entry \<in> set S \<Longrightarrow> length (fst entry) < length (longerId S)"
  by (induction S) (auto simp add: longerId_def)

lemma longerId_fresh: "longerId S \<notin> fst ` set S \<and> longerId S \<noteq> []"
proof
  show "longerId S \<notin> fst ` set S"
  proof
    assume "longerId S \<in> fst ` set S"
    then obtain entry where "entry \<in> set S" "fst entry = longerId S" by auto
    with longerId_longer [of entry S] show False by simp
  qed
  show "longerId S \<noteq> []" by (simp add: longerId_def)
qed

text \<open>
  Claim C6 as amended. Let the first run over a store and a MARC file end without an
  exception, the store having distinct, non-empty ids and \<open>getNextNewspaperId\<close> returning
  an unused, non-empty id. Suppose that no control number occurs in two of the file's
  processed records (the records that pass the skip checks), and that every record the
  first run creates (a processed record none of whose control numbers is claimed in the
  store) has a type of date \<open>c\<close> exactly when its final year is \<open>9999\<close>. Then the second
  run, over the same file and the store the first run left, ends without an exception,
  calls \<open>writeNewspaper\<close> not once, leaves the store as it found it, counts no new and no
  updated record, and counts every processed record of the file as an existing record.
\<close>

theorem second_run_changes_nothing:
  assumes "readMarcFile titleCleanup getNextNewspaperId S0 M = Inr st1"
    and "distinct (map fst S0)" and "[] \<notin> fst ` set S0"
    and "\<forall>S. getNextNewspaperId S \<notin> fst ` set S \<and> getNextNewspaperId S \<noteq> []"
    and "sorted_wrt disjointNumbers (filter (processed titleCleanup) M)"
    and "\<forall>r \<in> set M. creates titleCleanup (map_of (claimedPairs S0)) r \<longrightarrow> consistentDates r"
  shows "\<exists>st2. readMarcFile titleCleanup getNextNewspaperId (papers st1) M = Inr st2
      \<and> writes st2 = [] \<and> papers st2 = papers st1
      \<and> stats st2 ''count-new-record'' = None
      \<and> stats st2 ''count-existing-record-updated'' = None
      \<and> statCount st2 ''count-existing-record'' = length (filter (processed titleCleanup) M)"
proof -
  let ?idx0 = "map_of (claimedPairs S0)"
  from assms(1) obtain tables where scan0: "scanRecords S0 = Inr tables"
    by (cases "scanRecords S0") (auto simp add: readMarcFile_def)
  obtain idx0 pd0 where tables: "tables = (idx0, pd0)" by (cases tables)
  from scan0 tables have fold0: "foldE (scanRecord S0) (Map.empty, Map.empty) S0 = Inr (idx0, pd0)"
    by (simp add: scanRecords_def)
  have "\<forall>c i. (Map.empty :: string \<rightharpoonup> string) c = Some i \<longrightarrow> i \<noteq> []" by simp
  from scan_forward [OF fold0 assms(3) this]
  have d0: "distinct (map fst (claimedPairs S0))" and idx0: "idx0 = ?idx0"
    by simp_all
  from assms(1) scan0 tables idx0
  have run1: "foldE (onData titleCleanup getNextNewspaperId ?idx0 pd0) (initialState S0) M = Inr st1"
    by (simp add: readMarcFile_def)
  have start: "firstRunInvariant titleCleanup ?idx0 S0 [] (papers (initialState S0))"
    by (rule firstRunInvariant_start)
  from assms(5) have sorted: "sorted_wrt disjointNumbers (filter (processed titleCleanup) ([] @ M))"
    by simp
  from firstRunInvariant_run [OF start run1 refl assms(2,3,4) sorted assms(6)]
  have inv: "firstRunInvariant titleCleanup ?idx0 S0 M (papers st1)" by simp
  let ?idx1 = "map_of (claimedPairs (papers st1))"
  from second_scan [OF inv refl d0 assms(2,3,5)]
  obtain pd1 where scan1: "scanRecords (papers st1) = Inr (?idx1, pd1)"
    and resolved: "\<forall>r \<in> set M. processed titleCleanup r \<longrightarrow>
         (\<exists>e nw. resolve ?idx1 (nzNumbers r) = Some e \<and> e \<noteq> []
            \<and> map_of (papers st1) e = Some nw \<and> settled nw r)"
    by blast
  have begin2: "papers (initialState (papers st1)) = papers st1"
    "writes (initialState (papers st1)) = []"
    "stats (initialState (papers st1)) = Map.empty"
    "statCount (initialState (papers st1)) ''count-existing-record'' = 0"
    by (simp_all add: initialState_def statCount_def)
  from resolved have "\<forall>r \<in> set M. processed titleCleanup r \<longrightarrow>
         (\<exists>e nw. resolve ?idx1 (nzNumbers r) = Some e \<and> e \<noteq> []
            \<and> map_of (papers (initialState (papers st1))) e = Some nw \<and> settled nw r)"
    by (simp only: begin2)
  from settled_run [OF this, of getNextNewspaperId pd1]
  obtain st2 where
    run2: "foldE (onData titleCleanup getNextNewspaperId ?idx1 pd1) (initialState (papers st1)) M = Inr st2"
    and same: "papers st2 = papers (initialState (papers st1))"
      "writes st2 = writes (initialState (papers st1))"
      "stats st2 ''count-new-record'' = stats (initialState (papers st1)) ''count-new-record''"
      "stats st2 ''count-existing-record-updated''
         = stats (initialState (papers st1)) ''count-existing-record-updated''"
      "statCount st2 ''count-existing-record''
          = statCount (initialState (papers st1)) ''count-existing-record''
            + length (filter (processed titleCleanup) M)"
    by blast
  from scan1 run2 have "readMarcFile titleCleanup getNextNewspaperId (papers st1) M = Inr st2"
    by (simp add: readMarcFile_def)
  with same show ?thesis by (simp add: begin2)
qed


theorem second_run_changes_nothing_witness:
  "\<exists>st1 st2.
     readMarcFile id longerId [(''7'', sampleNewspaper ''7'' ''8000996'' ''18uu'' ''uuuu'' False)]
       [sampleRecord ''850101d18651999nz dr n'' ''(Nz)8000996'' ''Wellington, N.Z.'' ''Daily'',
        sampleRecord ''850101c19019999nz wr n'' ''(Nz)123456'' ''Auckland, N.Z.'' ''Weekly'',
        sampleRecord ''850101c19509999nz mr n'' ''(Nz)8000996'' ''Wellington, N.Z.'' ''Monthly'']
       = Inr st1
   \<and> map fst (writes st1) = [''7'', ''11'']
   \<and> readMarcFile id longerId (papers st1)
       [sampleRecord ''850101d18651999nz dr n'' ''(Nz)8000996'' ''Wellington, N.Z.'' ''Daily'',
        sampleRecord ''850101c19019999nz wr n'' ''(Nz)123456'' ''Auckland, N.Z.'' ''Weekly'',
        sampleRecord ''850101c19509999nz mr n'' ''(Nz)8000996'' ''Wellington, N.Z.'' ''Monthly'']
       = Inr st2
   \<and> writes st2 = [] \<and> papers st2 = papers st1
   \<and> statCount st2 ''count-existing-record'' = 2"
proof -
  let ?S0 = "[(''7'', sampleNewspaper ''7'' ''8000996'' ''18uu'' ''uuuu'' False)]"
  let ?r1 = "sampleRecord ''850101d18651999nz dr n'' ''(Nz)8000996'' ''Wellington, N.Z.'' ''Daily''"
  let ?r2 = "sampleRecord ''850101c19019999nz wr n'' ''(Nz)123456'' ''Auckland, N.Z.'' ''Weekly''"
  let ?r3 = "sampleRecord ''850101c19509999nz mr n'' ''(Nz)8000996'' ''Wellington, N.Z.'' ''Monthly''"
  have "\<exists>st1. readMarcFile id longerId ?S0 [?r1, ?r2, ?r3] = Inr st1
          \<and> map fst (writes st1) = [''7'', ''11'']"
    by (simp add: marc_eval)
  then obtain st1 where run1: "readMarcFile id longerId ?S0 [?r1, ?r2, ?r3] = Inr st1"
    and wrote: "map fst (writes st1) = [''7'', ''11'']" by (elim exE conjE)
  have ids: "distinct (map fst ?S0)" "[] \<notin> fst ` set ?S0" by simp_all
  have fresh: "\<forall>S. longerId S \<notin> fst ` set S \<and> longerId S \<noteq> []"
    using longerId_fresh by blast
  have proc: "processed id ?r1" "processed id ?r2" "\<not> processed id ?r3"
    by (simp_all add: processed_def skipLabel_cases marc_eval)
  have numbers: "nzNumbers ?r1 = [''8000996'']" "nzNumbers ?r2 = [''123456'']"
    by (simp_all add: nzNumbers_def sampleRecord_def subfields_def startsWith_def)
  have disjoint: "sorted_wrt disjointNumbers (filter (processed id) [?r1, ?r2, ?r3])"
    by (simp add: proc disjointNumbers_def numbers)
  have claims: "claimedPairs ?S0 = [(''8000996'', ''7'')]"
    by (simp add: sampleNewspaper_def)
  have created: "\<not> creates id (map_of (claimedPairs ?S0)) ?r1"
    "creates id (map_of (claimedPairs ?S0)) ?r2"
    "\<not> creates id (map_of (claimedPairs ?S0)) ?r3"
    unfolding claims by (simp_all add: creates_def proc numbers resolve_def falsy_def)
  have consistent: "consistentDates ?r2"
    by (simp add: consistentDates_def infoOf_def marc_eval)
  from created consistent
  have dates: "\<forall>r \<in> set [?r1, ?r2, ?r3]. creates id (map_of (claimedPairs ?S0)) r \<longrightarrow> consistentDates r"
    by simp
  from second_run_changes_nothing [OF run1 ids fresh disjoint dates]
  obtain st2 where "readMarcFile id longerId (papers st1) [?r1, ?r2, ?r3] = Inr st2"
    "writes st2 = []" "papers st2 = papers st1"
    "statCount st2 ''count-existing-record'' = length (filter (processed id) [?r1, ?r2, ?r3])"
    by blast
  with run1 wrote proc show ?thesis by auto
qed

end
